theory Spec2Isabelle
  imports Main
begin

section \<open>Consumable Macros: host documents\<close>

text \<open>
  The module under verification is \<^verbatim>\<open>scripts/consumable-macros.js\<close>: a set of hook callbacks
  that run a macro attached to a consumable item when the host reports that the item was
  consumed.  The host (documents, hooks, locator resolution) is a parameter of the model.

  Documents are records of the fields the callbacks read.  A value that may be
  \<^verbatim>\<open>undefined\<close> or \<^verbatim>\<open>null\<close> is an \<open>option\<close>; JavaScript truthiness is written out
  (\<open>truthy_str\<close>, \<open>truthy_num\<close>).  Strings are \<open>char list\<close>, so a character is one byte
  (Latin-1) rather than a UTF-16 code unit.
\<close>

record speaker =
  speaker_actor :: "string option"
  speaker_token :: "string option"

record item =
  item_id :: string
  item_name :: string
  item_type :: string
  item_quantity :: int  \<comment> \<open>\<^verbatim>\<open>item.system.quantity\<close>, an integer count\<close>
  item_macroUuid :: "string option"  \<comment> \<open>\<^verbatim>\<open>item.getFlag(MODULE_ID, FLAG_MACRO_UUID)\<close>\<close>
  item_parent :: "string option"  \<comment> \<open>\<^verbatim>\<open>item.parent\<close>: the owning actor, if any\<close>

record message =
  message_item :: "item option"  \<comment> \<open>\<^verbatim>\<open>message.item\<close>\<close>
  flags_context_item :: "string option"  \<comment> \<open>\<^verbatim>\<open>message.flags?.pf2e?.context?.item\<close>\<close>
  flags_origin_uuid :: "string option"  \<comment> \<open>\<^verbatim>\<open>message.flags?.pf2e?.origin?.uuid\<close>\<close>
  flags_origin_name :: "string option"  \<comment> \<open>\<^verbatim>\<open>message.flags?.pf2e?.origin?.name\<close>\<close>
  flags_origin_sourceId :: "string option"  \<comment> \<open>\<^verbatim>\<open>message.flags?.pf2e?.origin?.sourceId\<close>\<close>
  message_flavor :: "string option"
  message_content :: "string option"
  message_speaker :: speaker

text \<open>The object handed to \<^verbatim>\<open>macro.execute\<close>; a key the call site leaves out is \<open>None\<close>.\<close>

record macro_context =
  ctx_actor :: "string option"
  ctx_token :: "string option"
  ctx_character :: "string option"
  ctx_item :: item
  ctx_speaker :: speaker
  ctx_event :: "string option"
  ctx_target :: "string option"
  ctx_message :: "message option"

text \<open>
  What \<^verbatim>\<open>await macro.execute(ctx)\<close> can throw, as far as the \<^verbatim>\<open>catch\<close> blocks can tell; they
  read \<^verbatim>\<open>err.message\<close>.  A script may throw any value, or reject with none:
  \<^item> \<open>Nullish\<close>: \<^verbatim>\<open>null\<close> or \<^verbatim>\<open>undefined\<close>, on which reading \<^verbatim>\<open>.message\<close> throws a
    \<^verbatim>\<open>TypeError\<close>;
  \<^item> \<open>Thrown (Some msg)\<close>: a value whose \<^verbatim>\<open>message\<close> reads as the text \<open>msg\<close> in a template
    string, as that of an \<^verbatim>\<open>Error\<close> does;
  \<^item> \<open>Thrown None\<close>: any other value (a string, a number, an object without a message),
    whose \<^verbatim>\<open>message\<close> is \<^verbatim>\<open>undefined\<close>.
\<close>

datatype thrown = Nullish | Thrown "string option"

text \<open>
  A macro document.  What its script does is the host's business; the callbacks only see
  whether \<^verbatim>\<open>await macro.execute(ctx)\<close> completes (\<open>None\<close>) or throws (\<open>Some err\<close>).
\<close>

record macro =
  macro_name :: string
  macro_execute :: "macro_context \<Rightarrow> thrown option"

record actor =
  actor_id :: string
  actor_items :: "item list"

text \<open>
  The host as the callbacks use it.  \<^verbatim>\<open>fromUuid\<close> is split by the kind of document asked
  for: the attached-macro flag is only ever written with the locator of a macro (the drop
  handler checks \<^verbatim>\<open>data.type === "Macro"\<close>), the message locators name items.  A lookup
  yields a document or nothing; where the source wraps an item lookup in
  \<^verbatim>\<open>try/catch\<close>, a throwing lookup leaves the item unset, which is \<open>None\<close> as well.
  The canvas is taken to be ready, so \<^verbatim>\<open>canvas.tokens.get\<close> is a total lookup.
\<close>

record host =
  game_user_id :: string
  game_user_character :: "string option"
  macro_of_uuid :: "string \<Rightarrow> macro option"
  item_of_uuid :: "string \<Rightarrow> item option"
  game_actors :: "string \<Rightarrow> actor option"
  game_items :: "item list"
  getSpeaker :: speaker  \<comment> \<open>\<^verbatim>\<open>ChatMessage.getSpeaker()\<close>\<close>
  getSpeakerOf :: "string \<Rightarrow> speaker"  \<comment> \<open>\<^verbatim>\<open>ChatMessage.getSpeaker({actor})\<close>\<close>
  getSpeakerActor :: "speaker \<Rightarrow> string option"
  canvas_tokens_get :: "string option \<Rightarrow> string option"
  getActiveToken :: "string \<Rightarrow> string option"  \<comment> \<open>\<^verbatim>\<open>actor.getActiveTokens()[0]\<close>\<close>

definition truthy_str :: "string option \<Rightarrow> bool" where
  "truthy_str x = (case x of None \<Rightarrow> False | Some s \<Rightarrow> s \<noteq> [])"

definition truthy_num :: "int option \<Rightarrow> bool" where
  "truthy_num x = (case x of None \<Rightarrow> False | Some n \<Rightarrow> n \<noteq> 0)"

section \<open>Plugin state and the event loop\<close>

text \<open>
  The module keeps two module-level variables, \<^verbatim>\<open>recentlyExecuted\<close> (a \<^verbatim>\<open>Set\<close> of keys) and
  \<^verbatim>\<open>consumedItems\<close> (a \<^verbatim>\<open>Map\<close> from item id to a snapshot).  The state below adds what the
  JavaScript runtime holds for the module: the pending \<^verbatim>\<open>setTimeout\<close> callbacks (due time
  in milliseconds and the key each one deletes), the handlers suspended at
  \<^verbatim>\<open>await fromUuid(macroUuid)\<close>, and the observable effects in the order they happen.
\<close>

record stored =
  stored_name :: string
  stored_macroUuid :: string
  stored_actor :: "string option"

datatype effect =
    Executed string macro_context  \<comment> \<open>\<^verbatim>\<open>macro.execute(ctx)\<close> was called on the macro with this locator\<close>
  | ConsoleWarn
  | ConsoleError
  | UiError string  \<comment> \<open>\<^verbatim>\<open>ui.notifications.error(text)\<close>\<close>
  | Unhandled  \<comment> \<open>an exception left the callback: its promise is rejected\<close>

text \<open>
  A suspended handler: the local variables that are live across
  \<^verbatim>\<open>await fromUuid(macroUuid)\<close>, one constructor per callback.
\<close>

datatype task =
    AwaitPreUpdate item string  \<comment> \<open>item, macroUuid\<close>
  | AwaitDelete item stored  \<comment> \<open>item, storedData\<close>
  | AwaitUse item "string option" "string option" string  \<comment> \<open>item, event, target, macroUuid\<close>
  | AwaitConsume item string string  \<comment> \<open>item, actor, macroUuid\<close>
  | AwaitChat message item string  \<comment> \<open>message, item, macroUuid\<close>

record state =
  recentlyExecuted :: "string set"
  timers :: "(nat \<times> string) list"
  consumedItems :: "string \<rightharpoonup> stored"
  suspended :: "task list"
  effects :: "effect list"

definition init_state :: state where
  "init_state = \<lparr>recentlyExecuted = {}, timers = [], consumedItems = Map.empty,
     suspended = [], effects = []\<rparr>"

definition emit :: "effect list \<Rightarrow> state \<Rightarrow> state" where
  "emit es s = s\<lparr>effects := effects s @ es\<rparr>"

definition suspend :: "task \<Rightarrow> state \<Rightarrow> state" where
  "suspend k s = s\<lparr>suspended := suspended s @ [k]\<rparr>"

subsection \<open>\<^verbatim>\<open>shouldExecuteMacro\<close>\<close>

definition key_of :: "string \<Rightarrow> string \<Rightarrow> string" where
  "key_of itemName macroUuid = itemName @ '':'' @ macroUuid"

text \<open>
  \<^verbatim>\<open>shouldExecuteMacro(itemName, macroUuid)\<close> called at time \<open>now\<close>:
  \<^verbatim>\<open>setTimeout(() => recentlyExecuted.delete(key), 500)\<close> queues a callback due at
  \<open>now + 500\<close>.
\<close>

definition shouldExecuteMacro :: "nat \<Rightarrow> string \<Rightarrow> string \<Rightarrow> state \<Rightarrow> bool \<times> state" where
  "shouldExecuteMacro now itemName macroUuid s =
     (let key = key_of itemName macroUuid in
      if key \<in> recentlyExecuted s then (False, s)
      else (True, s\<lparr>recentlyExecuted := insert key (recentlyExecuted s),
                    timers := timers s @ [(now + 500, key)]\<rparr>))"

text \<open>
  The runtime runs every timer callback that is due before it runs the next piece of module
  code at time \<open>now\<close>.  A timer due at exactly \<open>now\<close> is taken to have run.
\<close>

definition run_timers :: "nat \<Rightarrow> state \<Rightarrow> state" where
  "run_timers now s =
     s\<lparr>recentlyExecuted := recentlyExecuted s - snd ` set (filter (\<lambda>d. fst d \<le> now) (timers s)),
       timers := filter (\<lambda>d. \<not> fst d \<le> now) (timers s)\<rparr>"

text \<open>The call as the event loop makes it at time \<open>now\<close>.\<close>

definition admit :: "nat \<Rightarrow> string \<Rightarrow> string \<Rightarrow> state \<Rightarrow> bool \<times> state" where
  "admit now itemName macroUuid s = shouldExecuteMacro now itemName macroUuid (run_timers now s)"

text \<open>A sequence of such calls, each with its time and its pair.\<close>

fun admits :: "(nat \<times> string \<times> string) list \<Rightarrow> state \<Rightarrow> state" where
  "admits [] s = s"
| "admits ((now, itemName, macroUuid) # cs) s = admits cs (snd (admit now itemName macroUuid s))"

text \<open>
  In every state the module can reach, each key of the set has exactly one timer pending and
  each pending timer belongs to a key of the set.
\<close>

definition wf_dedup :: "state \<Rightarrow> bool" where
  "wf_dedup s = (distinct (map snd (timers s)) \<and> snd ` set (timers s) = recentlyExecuted s)"

section \<open>Text patterns of the chat-message resolver\<close>

text \<open>
  \<^verbatim>\<open>\s\<close> and \<^verbatim>\<open>String.prototype.trim\<close> on one-byte characters: tab, line feed, vertical tab,
  form feed, carriage return, space and the no-break space.  The dot of a regular
  expression matches everything but a line terminator.
\<close>

definition is_space :: "char \<Rightarrow> bool" where
  "is_space c = (c \<in> set [CHR 0x09, CHR 0x0A, CHR 0x0B, CHR 0x0C, CHR 0x0D, CHR 0x20, CHR 0xA0])"

definition is_line_terminator :: "char \<Rightarrow> bool" where
  "is_line_terminator c = (c = CHR 0x0A \<or> c = CHR 0x0D)"

definition trim :: "string \<Rightarrow> string" where
  "trim s = rev (dropWhile is_space (rev (dropWhile is_space s)))"

text \<open>
  \<^verbatim>\<open>content.replace(/<[^>]*>/g, '')\<close>: a \<^verbatim>\<open><\<close> opens a tag only if a \<^verbatim>\<open>>\<close> follows
  somewhere; the tag then ends at the first one.  The flag says whether the scan is inside
  a tag.
\<close>

fun strip_tags_from :: "bool \<Rightarrow> string \<Rightarrow> string" where
  "strip_tags_from inside [] = []"
| "strip_tags_from True (c # cs) = strip_tags_from (c \<noteq> CHR ''>'') cs"
| "strip_tags_from False (c # cs) =
     (if c = CHR ''<'' \<and> CHR ''>'' \<in> set cs then strip_tags_from True cs
      else c # strip_tags_from False cs)"

definition strip_tags :: "string \<Rightarrow> string" where
  "strip_tags s = strip_tags_from False s"

text \<open>
  \<^verbatim>\<open>textContent.match(/^Uses\s+(.+)$/i)\<close>, giving the capture group.  After the four
  letters (either case) comes the longest run \<open>w\<close> of white space and the rest \<open>r\<close>.  A
  non-empty \<open>r\<close> is the capture if it has no line terminator.  When \<open>r\<close> is empty the
  greedy \<^verbatim>\<open>\s+\<close> gives back its last character, which is the capture unless it is a line
  terminator.
\<close>

definition uses_pattern :: "string \<Rightarrow> string option" where
  "uses_pattern s =
     (case s of
        a # b # c # d # rest \<Rightarrow>
          if a \<in> set ''Uu'' \<and> b \<in> set ''Ss'' \<and> c \<in> set ''Ee'' \<and> d \<in> set ''Ss'' then
            (let w = takeWhile is_space rest; r = dropWhile is_space rest in
             if w = [] then None
             else if r \<noteq> [] then (if list_ex is_line_terminator r then None else Some r)
             else if 2 \<le> length w \<and> \<not> is_line_terminator (last w) then Some [last w]
             else None)
          else None
      | _ \<Rightarrow> None)"

text \<open>The text after the first occurrence of a character, if it occurs.\<close>

definition after_first :: "char \<Rightarrow> string \<Rightarrow> string option" where
  "after_first c s = (case dropWhile (\<lambda>x. x \<noteq> c) s of [] \<Rightarrow> None | x # r \<Rightarrow> Some r)"

text \<open>A non-empty run of characters other than \<open>c\<close>, followed by \<open>c\<close>: the run.\<close>

definition run_before :: "char \<Rightarrow> string \<Rightarrow> string option" where
  "run_before c s =
     (let cap = takeWhile (\<lambda>x. x \<noteq> c) s in
      if cap = [] \<or> dropWhile (\<lambda>x. x \<noteq> c) s = [] then None else Some cap)"

text \<open>
  \<^verbatim>\<open>/data-item-id="[^"]*"[^>]*>([^<]+)</\<close> tried at the start of \<open>s\<close>.  Each negated class
  stops at the first occurrence of the character it excludes, so there is one way to match.
\<close>

definition item_id_pattern_at :: "string \<Rightarrow> string option" where
  "item_id_pattern_at s =
     (let lit = ''data-item-id='' @ [CHR 0x22] in
      if take (length lit) s = lit then
        (case after_first (CHR 0x22) (drop (length lit) s) of
           None \<Rightarrow> None
         | Some a \<Rightarrow>
             (case after_first (CHR ''>'') a of
                None \<Rightarrow> None
              | Some b \<Rightarrow> run_before (CHR ''<'') b))
      else None)"

text \<open>\<^verbatim>\<open>/data-item-name="([^"]+)"/\<close> tried at the start of \<open>s\<close>.\<close>

definition item_name_pattern_at :: "string \<Rightarrow> string option" where
  "item_name_pattern_at s =
     (let lit = ''data-item-name='' @ [CHR 0x22] in
      if take (length lit) s = lit then run_before (CHR 0x22) (drop (length lit) s)
      else None)"

text \<open>\<^verbatim>\<open>String.prototype.match\<close> without the \<^verbatim>\<open>g\<close> flag: the leftmost position that matches.\<close>

fun first_match :: "(string \<Rightarrow> string option) \<Rightarrow> string \<Rightarrow> string option" where
  "first_match p [] = p []"
| "first_match p (c # cs) =
     (case p (c # cs) of Some r \<Rightarrow> Some r | None \<Rightarrow> first_match p cs)"

text \<open>\<^verbatim>\<open>originUuid.split('.')\<close>.\<close>

fun split_on :: "char \<Rightarrow> string \<Rightarrow> string list" where
  "split_on d [] = [[]]"
| "split_on d (c # cs) =
     (if c = d then [] # split_on d cs
      else (case split_on d cs of [] \<Rightarrow> [[c]] | p # ps \<Rightarrow> (c # p) # ps))"

text \<open>
  The three name patterns of the chat-message callback, in the source's order.  The result is
  the final value of \<^verbatim>\<open>itemName\<close>; \<open>None\<close> is \<^verbatim>\<open>null\<close>.
\<close>

definition extract_item_name :: "message \<Rightarrow> string option" where
  "extract_item_name message =
     (let itemName1 =
            (if truthy_str (message_flavor message)
             then first_match item_id_pattern_at (the (message_flavor message)) else None);
          itemName2 =
            (if \<not> truthy_str itemName1 \<and> truthy_str (message_content message) then
               (let textContent = trim (strip_tags (the (message_content message))) in
                case uses_pattern textContent of
                  Some cap \<Rightarrow> Some (trim cap)
                | None \<Rightarrow>
                    (case first_match item_name_pattern_at (the (message_content message)) of
                       Some n \<Rightarrow> Some n
                     | None \<Rightarrow> itemName1))
             else itemName1)
      in if \<not> truthy_str itemName2 \<and> truthy_str (flags_origin_name message)
         then flags_origin_name message else itemName2)"

section \<open>The item resolver of the chat-message callback\<close>

definition is_named_consumable :: "string \<Rightarrow> item \<Rightarrow> bool" where
  "is_named_consumable itemName i = (item_name i = itemName \<and> item_type i = ''consumable'')"

text \<open>
  The search by name: the actor's inventory, then the world items, then the source item,
  which counts only if its name is the one looked for.
\<close>

definition search_by_name :: "host \<Rightarrow> actor \<Rightarrow> message \<Rightarrow> string \<Rightarrow> item option" where
  "search_by_name h actor message itemName =
     (case find (is_named_consumable itemName) (actor_items actor) of
        Some i \<Rightarrow> Some i
      | None \<Rightarrow>
          (case find (is_named_consumable itemName) (game_items h) of
             Some i \<Rightarrow> Some i
           | None \<Rightarrow>
               if truthy_str (flags_origin_sourceId message) then
                 (case item_of_uuid h (the (flags_origin_sourceId message)) of
                    Some sourceItem \<Rightarrow>
                      if item_name sourceItem = itemName then Some sourceItem else None
                  | None \<Rightarrow> None)
               else None))"

text \<open>
  The origin branch: the locator itself, then, for a locator of the shape
  \<^verbatim>\<open>Actor.<actorId>.Item.<itemId>\<close> whose actor exists, the actor's item of that id, then
  the search by name.  \<^verbatim>\<open>uuidParts[3]\<close> is \<^verbatim>\<open>undefined\<close> when there are three parts, and
  no item has that id.
\<close>

definition item_from_origin :: "host \<Rightarrow> message \<Rightarrow> string \<Rightarrow> item option" where
  "item_from_origin h message originUuid =
     (case item_of_uuid h originUuid of
        Some i \<Rightarrow> Some i
      | None \<Rightarrow>
          (let uuidParts = split_on (CHR ''.'') originUuid in
           if 3 \<le> length uuidParts \<and> uuidParts ! 0 = ''Actor'' \<and> uuidParts ! 2 = ''Item'' then
             (case game_actors h (uuidParts ! 1) of
                None \<Rightarrow> None
              | Some actor \<Rightarrow>
                  (case (if 3 < length uuidParts
                         then find (\<lambda>i. item_id i = uuidParts ! 3) (actor_items actor)
                         else None) of
                     Some i \<Rightarrow> Some i
                   | None \<Rightarrow>
                       (let itemName = extract_item_name message in
                        if truthy_str itemName
                        then search_by_name h actor message (the itemName) else None)))
           else None))"

text \<open>
  The value of \<^verbatim>\<open>item\<close> when the callback reaches \<^verbatim>\<open>if (!item)\<close>.  The lookups awaited on
  the way read host documents only, never the module's own state.
\<close>

definition resolve_item :: "host \<Rightarrow> message \<Rightarrow> item option" where
  "resolve_item h message =
     (let item1 = message_item message;
          item2 =
            (if item1 = None \<and> truthy_str (flags_context_item message)
             then item_of_uuid h (the (flags_context_item message)) else item1)
      in if item2 = None \<and> truthy_str (flags_origin_uuid message)
         then item_from_origin h message (the (flags_origin_uuid message)) else item2)"

section \<open>The hook callbacks\<close>

text \<open>
  One constructor per hook the module subscribes to for consumption, with the arguments the
  callback reads.  Of the change payload of \<^verbatim>\<open>preUpdateItem\<close> only
  \<^verbatim>\<open>change.system?.quantity\<close> is read.  The two \<^verbatim>\<open>pf2e\<close> hooks pass no user id.
\<close>

datatype notification =
    PreUpdateItem item "int option" string  \<comment> \<open>item, change.system?.quantity, userId\<close>
  | PreDeleteItem item string  \<comment> \<open>item, userId\<close>
  | DeleteItem item string  \<comment> \<open>item, userId\<close>
  | Pf2eUseItem item "string option" "string option"  \<comment> \<open>item, event, target\<close>
  | Pf2eConsumeItem item string  \<comment> \<open>item, actor\<close>
  | CreateChatMessage message string  \<comment> \<open>message, userId\<close>

text \<open>
  Each callback is an \<^verbatim>\<open>async\<close> function.  \<open>handle\<close> is its synchronous part: what runs
  when the host calls the hook, up to \<^verbatim>\<open>await fromUuid(macroUuid)\<close>, where the callback
  is suspended, or up to an earlier \<^verbatim>\<open>return\<close>.  (\<^verbatim>\<open>preDeleteItem\<close> never awaits.)
  \<^verbatim>\<open>console.log\<close> output is not recorded.
\<close>

fun handle :: "host \<Rightarrow> notification \<Rightarrow> state \<Rightarrow> state" where
  "handle h (PreUpdateItem item change_quantity userId) s =
     (if userId \<noteq> game_user_id h then s
      else if item_type item \<noteq> ''consumable'' then s
      else if \<not> truthy_num change_quantity then s
      else
        (let oldQuantity = item_quantity item; newQuantity = the change_quantity in
         if newQuantity \<ge> oldQuantity then s
         else if \<not> truthy_str (item_macroUuid item) then s
         else suspend (AwaitPreUpdate item (the (item_macroUuid item))) s))"
| "handle h (PreDeleteItem item userId) s =
     (if userId \<noteq> game_user_id h then s
      else if item_type item \<noteq> ''consumable'' then s
      else if \<not> truthy_str (item_macroUuid item) then s
      else s\<lparr>consumedItems := (consumedItems s)(item_id item \<mapsto>
               \<lparr>stored_name = item_name item,
                stored_macroUuid = the (item_macroUuid item),
                stored_actor = item_parent item\<rparr>)\<rparr>)"
| "handle h (DeleteItem item userId) s =
     (case consumedItems s (item_id item) of
        None \<Rightarrow> s
      | Some storedData \<Rightarrow>
          suspend (AwaitDelete item storedData)
            (s\<lparr>consumedItems := (consumedItems s)(item_id item := None)\<rparr>))"
| "handle h (Pf2eUseItem item event target) s =
     (if item_type item \<noteq> ''consumable'' then s
      else if \<not> truthy_str (item_macroUuid item) then s
      else suspend (AwaitUse item event target (the (item_macroUuid item))) s)"
| "handle h (Pf2eConsumeItem item actor) s =
     (if \<not> truthy_str (item_macroUuid item) then s
      else suspend (AwaitConsume item actor (the (item_macroUuid item))) s)"
| "handle h (CreateChatMessage message userId) s =
     (if userId \<noteq> game_user_id h then s
      else
        (case resolve_item h message of
           None \<Rightarrow> s
         | Some item \<Rightarrow>
             if item_type item \<noteq> ''consumable'' then s
             else if \<not> truthy_str (item_macroUuid item) then s
             else suspend (AwaitChat message item (the (item_macroUuid item))) s))"

text \<open>
  The \<^verbatim>\<open>try { ... await macro.execute({...}) } catch (err) { ... }\<close> block.  The handler
  logs \<^verbatim>\<open>err\<close> with \<^verbatim>\<open>console.error\<close>, then builds the text of the notification from
  \<^verbatim>\<open>err.message\<close>.  For a nullish \<^verbatim>\<open>err\<close> that read throws inside the handler, before
  \<^verbatim>\<open>ui.notifications.error\<close> is called, and nothing catches it; an \<^verbatim>\<open>undefined\<close> message
  is printed as the word \<^verbatim>\<open>undefined\<close>.
\<close>

definition try_execute :: "string \<Rightarrow> macro \<Rightarrow> macro_context \<Rightarrow> state \<Rightarrow> state" where
  "try_execute macroUuid macro ctx s =
     (case macro_execute macro ctx of
        None \<Rightarrow> emit [Executed macroUuid ctx] s
      | Some Nullish \<Rightarrow> emit [Executed macroUuid ctx, ConsoleError, Unhandled] s
      | Some (Thrown message) \<Rightarrow>
          emit [Executed macroUuid ctx, ConsoleError,
                UiError (''Failed to execute macro: '' @
                         (case message of Some msg \<Rightarrow> msg | None \<Rightarrow> ''undefined''))] s)"

text \<open>
  What all five callbacks do once \<^verbatim>\<open>fromUuid(macroUuid)\<close> has answered: return if there is
  no macro (three of them after a \<^verbatim>\<open>console.warn\<close>), return if
  \<^verbatim>\<open>shouldExecuteMacro\<close> says so, else run the macro.
\<close>

definition dispatch ::
  "host \<Rightarrow> nat \<Rightarrow> bool \<Rightarrow> string \<Rightarrow> string \<Rightarrow> macro_context \<Rightarrow> state \<Rightarrow> state" where
  "dispatch h now warns itemName macroUuid ctx s =
     (case macro_of_uuid h macroUuid of
        None \<Rightarrow> if warns then emit [ConsoleWarn] s else s
      | Some macro \<Rightarrow>
          (case shouldExecuteMacro now itemName macroUuid s of
             (False, s') \<Rightarrow> s'
           | (True, s') \<Rightarrow> try_execute macroUuid macro ctx s'))"

text \<open>
  The object each callback builds inside its \<^verbatim>\<open>try\<close> block.  The \<^verbatim>\<open>deleteItem\<close> callback
  prefers the actor of the snapshot (\<^verbatim>\<open>storedData.actor || ...\<close>); the
  \<^verbatim>\<open>pf2e.consumeItem\<close> callback uses the actor it was given.
\<close>

fun build_context :: "host \<Rightarrow> task \<Rightarrow> macro_context" where
  "build_context h (AwaitPreUpdate item macroUuid) =
     (let speaker = getSpeaker h in
      \<lparr>ctx_actor = getSpeakerActor h speaker,
       ctx_token = canvas_tokens_get h (speaker_token speaker),
       ctx_character = game_user_character h,
       ctx_item = item, ctx_speaker = speaker,
       ctx_event = None, ctx_target = None, ctx_message = None\<rparr>)"
| "build_context h (AwaitDelete item storedData) =
     (let speaker = getSpeaker h in
      \<lparr>ctx_actor = (case stored_actor storedData of
                      Some a \<Rightarrow> Some a
                    | None \<Rightarrow> getSpeakerActor h speaker),
       ctx_token = canvas_tokens_get h (speaker_token speaker),
       ctx_character = game_user_character h,
       ctx_item = item, ctx_speaker = speaker,
       ctx_event = None, ctx_target = None, ctx_message = None\<rparr>)"
| "build_context h (AwaitUse item event target macroUuid) =
     (let speaker = getSpeaker h in
      \<lparr>ctx_actor = getSpeakerActor h speaker,
       ctx_token = canvas_tokens_get h (speaker_token speaker),
       ctx_character = game_user_character h,
       ctx_item = item, ctx_speaker = speaker,
       ctx_event = event, ctx_target = target, ctx_message = None\<rparr>)"
| "build_context h (AwaitConsume item actor macroUuid) =
     \<lparr>ctx_actor = Some actor,
      ctx_token = getActiveToken h actor,
      ctx_character = game_user_character h,
      ctx_item = item, ctx_speaker = getSpeakerOf h actor,
      ctx_event = None, ctx_target = None, ctx_message = None\<rparr>"
| "build_context h (AwaitChat message item macroUuid) =
     (let speaker = message_speaker message in
      \<lparr>ctx_actor = getSpeakerActor h speaker,
       ctx_token = canvas_tokens_get h (speaker_token speaker),
       ctx_character = game_user_character h,
       ctx_item = item, ctx_speaker = speaker,
       ctx_event = None, ctx_target = None, ctx_message = Some message\<rparr>)"

text \<open>
  The rest of each callback, run when the runtime resumes it at time \<open>now\<close>.  The
  \<^verbatim>\<open>pf2e\<close> callbacks return without a warning when the macro is gone.
\<close>

fun resume :: "host \<Rightarrow> nat \<Rightarrow> task \<Rightarrow> state \<Rightarrow> state" where
  "resume h now (AwaitPreUpdate item macroUuid) s =
     dispatch h now True (item_name item) macroUuid
       (build_context h (AwaitPreUpdate item macroUuid)) s"
| "resume h now (AwaitDelete item storedData) s =
     dispatch h now True (stored_name storedData) (stored_macroUuid storedData)
       (build_context h (AwaitDelete item storedData)) s"
| "resume h now (AwaitUse item event target macroUuid) s =
     dispatch h now False (item_name item) macroUuid
       (build_context h (AwaitUse item event target macroUuid)) s"
| "resume h now (AwaitConsume item actor macroUuid) s =
     dispatch h now False (item_name item) macroUuid
       (build_context h (AwaitConsume item actor macroUuid)) s"
| "resume h now (AwaitChat message item macroUuid) s =
     dispatch h now True (item_name item) macroUuid
       (build_context h (AwaitChat message item macroUuid)) s"

text \<open>The pair a suspended callback will pass to \<^verbatim>\<open>shouldExecuteMacro\<close>.\<close>

fun task_name :: "task \<Rightarrow> string" where
  "task_name (AwaitPreUpdate item macroUuid) = item_name item"
| "task_name (AwaitDelete item storedData) = stored_name storedData"
| "task_name (AwaitUse item event target macroUuid) = item_name item"
| "task_name (AwaitConsume item actor macroUuid) = item_name item"
| "task_name (AwaitChat message item macroUuid) = item_name item"

fun task_macroUuid :: "task \<Rightarrow> string" where
  "task_macroUuid (AwaitPreUpdate item macroUuid) = macroUuid"
| "task_macroUuid (AwaitDelete item storedData) = stored_macroUuid storedData"
| "task_macroUuid (AwaitUse item event target macroUuid) = macroUuid"
| "task_macroUuid (AwaitConsume item actor macroUuid) = macroUuid"
| "task_macroUuid (AwaitChat message item macroUuid) = macroUuid"

subsection \<open>The event loop\<close>

text \<open>
  The runtime is single-threaded: at any time it either calls a hook (\<open>Fire\<close>) or resumes
  one of the suspended callbacks (\<open>Wake\<close>, by position in the list of suspended callbacks),
  and each piece runs to its end before the next starts.  Every event carries the time in
  milliseconds at which it runs.  A \<open>Wake\<close> of a position that holds no callback does nothing.
\<close>

datatype event = Fire notification | Wake nat

fun step :: "host \<Rightarrow> nat \<times> event \<Rightarrow> state \<Rightarrow> state" where
  "step h (now, Fire n) s = handle h n (run_timers now s)"
| "step h (now, Wake i) s =
     (let s' = run_timers now s in
      if i < length (suspended s') then
        resume h now (suspended s' ! i)
          (s'\<lparr>suspended := take i (suspended s') @ drop (Suc i) (suspended s')\<rparr>)
      else s')"

fun run :: "host \<Rightarrow> (nat \<times> event) list \<Rightarrow> state \<Rightarrow> state" where
  "run h [] s = s"
| "run h (e # es) s = run h es (step h e s)"

text \<open>The locators of the macros invoked so far, in order.\<close>

fun invoked :: "effect list \<Rightarrow> string list" where
  "invoked [] = []"
| "invoked (Executed macroUuid ctx # es) = macroUuid # invoked es"
| "invoked (e # es) = invoked es"

text \<open>The number of exceptions that have left a callback so far.\<close>

fun escaped :: "effect list \<Rightarrow> nat" where
  "escaped [] = 0"
| "escaped (Unhandled # es) = Suc (escaped es)"
| "escaped (e # es) = escaped es"

text \<open>The texts of the error notifications shown so far.\<close>

fun ui_errors :: "effect list \<Rightarrow> string list" where
  "ui_errors [] = []"
| "ui_errors (UiError text # es) = text # ui_errors es"
| "ui_errors (e # es) = ui_errors es"

text \<open>Whether some \<open>Wake\<close> of the trace resumes a callback.\<close>

fun resumes_some :: "host \<Rightarrow> (nat \<times> event) list \<Rightarrow> state \<Rightarrow> bool" where
  "resumes_some h [] s = False"
| "resumes_some h ((now, Fire n) # es) s = resumes_some h es (step h (now, Fire n) s)"
| "resumes_some h ((now, Wake i) # es) s =
     (i < length (suspended s) \<or> resumes_some h es (step h (now, Wake i) s))"

text \<open>
  The item a callback works on when the hook is called: the item passed in, or the one the
  resolver finds.  \<^verbatim>\<open>deleteItem\<close> works from the stored snapshot instead.
\<close>

fun subject :: "host \<Rightarrow> notification \<Rightarrow> item option" where
  "subject h (PreUpdateItem item change_quantity userId) = Some item"
| "subject h (PreDeleteItem item userId) = Some item"
| "subject h (DeleteItem item userId) = None"
| "subject h (Pf2eUseItem item event target) = Some item"
| "subject h (Pf2eConsumeItem item actor) = Some item"
| "subject h (CreateChatMessage message userId) = resolve_item h message"

text \<open>
  An event is aimed at the pair \<open>(itemName, macroUuid)\<close> when the item its notification
  leads to, if any, has that name and that attached macro; a trace is about the pair when
  all its events are.
\<close>

definition aims_at :: "host \<Rightarrow> string \<Rightarrow> string \<Rightarrow> event \<Rightarrow> bool" where
  "aims_at h itemName macroUuid e =
     (case e of
        Wake i \<Rightarrow> True
      | Fire n \<Rightarrow>
          (case subject h n of
             None \<Rightarrow> True
           | Some i \<Rightarrow> item_name i = itemName \<and> item_macroUuid i = Some macroUuid))"

definition about :: "host \<Rightarrow> string \<Rightarrow> string \<Rightarrow> (nat \<times> event) list \<Rightarrow> bool" where
  "about h itemName macroUuid tr = list_all (\<lambda>e. aims_at h itemName macroUuid (snd e)) tr"

text \<open>All events of a trace run in the half-open window of \<open>width\<close> milliseconds from \<open>t0\<close>.\<close>

definition within :: "nat \<Rightarrow> nat \<Rightarrow> (nat \<times> event) list \<Rightarrow> bool" where
  "within t0 width tr = list_all (\<lambda>e. t0 \<le> fst e \<and> fst e < t0 + width) tr"

text \<open>The same for the hook calls alone, whenever the callbacks are resumed.\<close>

fun fired_within :: "nat \<Rightarrow> nat \<Rightarrow> (nat \<times> event) list \<Rightarrow> bool" where
  "fired_within t0 width [] = True"
| "fired_within t0 width ((now, Fire n) # es) =
     (t0 \<le> now \<and> now < t0 + width \<and> fired_within t0 width es)"
| "fired_within t0 width ((now, Wake i) # es) = fired_within t0 width es"

text \<open>
  Every suspended callback, and every snapshot waiting in \<^verbatim>\<open>consumedItems\<close>, is for the pair
  \<open>(itemName, macroUuid)\<close>.
\<close>

definition tasks_about :: "string \<Rightarrow> string \<Rightarrow> state \<Rightarrow> bool" where
  "tasks_about itemName macroUuid s =
     (list_all (\<lambda>k. task_name k = itemName \<and> task_macroUuid k = macroUuid) (suspended s)
      \<and> (\<forall>sd \<in> ran (consumedItems s).
            stored_name sd = itemName \<and> stored_macroUuid sd = macroUuid))"

text \<open>
  The two situations of the suppressor with respect to one key: no entry and no timer for it,
  or an entry that no pending timer deletes before time \<open>T\<close>.
\<close>

definition no_entry :: "string \<Rightarrow> state \<Rightarrow> bool" where
  "no_entry key s = (key \<notin> recentlyExecuted s \<and> key \<notin> snd ` set (timers s))"

definition entry_until :: "string \<Rightarrow> nat \<Rightarrow> state \<Rightarrow> bool" where
  "entry_until key T s =
     (key \<in> recentlyExecuted s \<and> (\<forall>d \<in> set (timers s). snd d = key \<longrightarrow> T \<le> fst d))"

section \<open>Example documents\<close>

definition potion :: item where
  "potion = \<lparr>item_id = ''i1'', item_name = ''Healing Potion'', item_type = ''consumable'',
     item_quantity = 3, item_macroUuid = Some ''Macro.heal'', item_parent = Some ''a1''\<rparr>"

definition last_potion :: item where
  "last_potion = potion\<lparr>item_quantity := 1\<rparr>"

definition heal :: macro where
  "heal = \<lparr>macro_name = ''Heal'', macro_execute = (\<lambda>ctx. None)\<rparr>"

text \<open>
  Three macros that fail: \<^verbatim>\<open>throw new Error("boom")\<close>, \<^verbatim>\<open>throw null\<close> and
  \<^verbatim>\<open>throw "boom"\<close>.
\<close>

definition broken :: macro where
  "broken = \<lparr>macro_name = ''Broken'', macro_execute = (\<lambda>ctx. Some (Thrown (Some ''boom'')))\<rparr>"

definition throws_null :: macro where
  "throws_null = \<lparr>macro_name = ''Throws null'', macro_execute = (\<lambda>ctx. Some Nullish)\<rparr>"

definition throws_text :: macro where
  "throws_text = \<lparr>macro_name = ''Throws text'', macro_execute = (\<lambda>ctx. Some (Thrown None))\<rparr>"

definition flask :: item where
  "flask = \<lparr>item_id = ''i4'', item_name = ''Flask'', item_type = ''consumable'',
     item_quantity = 2, item_macroUuid = Some ''Macro.null'', item_parent = Some ''a1''\<rparr>"

definition vial :: item where
  "vial = \<lparr>item_id = ''i5'', item_name = ''Vial'', item_type = ''consumable'',
     item_quantity = 2, item_macroUuid = Some ''Macro.text'', item_parent = Some ''a1''\<rparr>"

definition bomb :: item where
  "bomb = \<lparr>item_id = ''i2'', item_name = ''Bomb'', item_type = ''consumable'',
     item_quantity = 2, item_macroUuid = Some ''Macro.broken'', item_parent = Some ''a1''\<rparr>"

definition orphan :: item where
  "orphan = \<lparr>item_id = ''i3'', item_name = ''Old Scroll'', item_type = ''consumable'',
     item_quantity = 2, item_macroUuid = Some ''Macro.gone'', item_parent = Some ''a1''\<rparr>"

definition narrator :: speaker where
  "narrator = \<lparr>speaker_actor = Some ''a1'', speaker_token = None\<rparr>"

definition hero :: actor where
  "hero = \<lparr>actor_id = ''a1'', actor_items = [bomb, potion, orphan]\<rparr>"

text \<open>A world with one user \<open>u1\<close>, one actor \<open>a1\<close> and four macros.\<close>

definition table :: host where
  "table = \<lparr>game_user_id = ''u1'', game_user_character = Some ''a1'',
     macro_of_uuid = (\<lambda>u. if u = ''Macro.heal'' then Some heal
                           else if u = ''Macro.broken'' then Some broken
                           else if u = ''Macro.null'' then Some throws_null
                           else if u = ''Macro.text'' then Some throws_text else None),
     item_of_uuid = (\<lambda>u. None),
     game_actors = (\<lambda>a. if a = ''a1'' then Some hero else None),
     game_items = [],
     getSpeaker = narrator,
     getSpeakerOf = (\<lambda>a. \<lparr>speaker_actor = Some a, speaker_token = None\<rparr>),
     getSpeakerActor = speaker_actor,
     canvas_tokens_get = (\<lambda>t. t),
     getActiveToken = (\<lambda>a. None)\<rparr>"

text \<open>A chat message that only says what was used, and one that also names where it came from.\<close>

definition bare_message :: message where
  "bare_message = \<lparr>message_item = None, flags_context_item = None, flags_origin_uuid = None,
     flags_origin_name = None, flags_origin_sourceId = None, message_flavor = None,
     message_content = Some ''Uses Healing Potion'', message_speaker = narrator\<rparr>"

definition origin_message :: message where
  "origin_message = bare_message\<lparr>flags_origin_uuid := Some ''Actor.a1.Item.tmp9''\<rparr>"

text \<open>
  Traces.  \<open>burst\<close>: one consumption reported on every path, all callbacks resumed within
  half a second.  \<open>slow_burst\<close> and \<open>racing\<close>: two notifications close together, the second
  callback resumed late.
\<close>

definition burst :: "(nat \<times> event) list" where
  "burst =
     [(0, Fire (PreUpdateItem potion (Some 2) ''u1'')),
      (2, Fire (CreateChatMessage origin_message ''u1'')),
      (3, Wake 1),
      (5, Fire (Pf2eUseItem potion None None)),
      (6, Fire (Pf2eConsumeItem potion ''a1'')),
      (40, Wake 0),
      (400, Wake 1),
      (450, Fire (PreDeleteItem potion ''u1'')),
      (460, Fire (DeleteItem potion ''u1'')),
      (499, Wake 0)]"

definition slow_burst :: "(nat \<times> event) list" where
  "slow_burst =
     [(0, Fire (Pf2eConsumeItem potion ''a1'')),
      (1, Wake 0),
      (20, Fire (PreUpdateItem potion (Some 2) ''u1'')),
      (650, Wake 0)]"

definition two_waiting :: "(nat \<times> event) list" where
  "two_waiting =
     [(0, Fire (PreUpdateItem potion (Some 2) ''u1'')),
      (100, Fire (Pf2eUseItem potion None None))]"

definition racing :: "(nat \<times> event) list" where
  "racing = two_waiting @ [(100, Wake 0), (700, Wake 0)]"

text \<open>
  \<open>three_waiting\<close>: two callbacks for the potion and one for the bomb suspended.
  \<open>apart\<close>: two notifications for the potion 501 ms apart, the first callback resumed after
  2 ms.  \<open>used_then_deleted\<close>: the last potion used and, within the window, deleted.
  \<open>orphan_deleted\<close>: an item deleted whose macro is gone.
\<close>

definition three_waiting :: "(nat \<times> event) list" where
  "three_waiting =
     [(0, Fire (PreUpdateItem potion (Some 2) ''u1'')),
      (50, Fire (Pf2eUseItem bomb None None)),
      (100, Fire (Pf2eUseItem potion None None))]"

definition apart :: "(nat \<times> event) list" where
  "apart =
     [(0, Fire (PreUpdateItem potion (Some 2) ''u1'')),
      (2, Wake 0),
      (501, Fire (Pf2eUseItem potion None None)),
      (501, Wake 0)]"



text \<open>Three uses, of items whose macros throw an error, \<^verbatim>\<open>null\<close> and a string.\<close>

definition bomb_used :: "(nat \<times> event) list" where
  "bomb_used = [(0, Fire (Pf2eUseItem bomb None None)), (1, Wake 0)]"

definition flask_used :: "(nat \<times> event) list" where
  "flask_used = [(0, Fire (Pf2eUseItem flask None None)), (1, Wake 0)]"

definition vial_used :: "(nat \<times> event) list" where
  "vial_used = [(0, Fire (Pf2eUseItem vial None None)), (1, Wake 0)]"

text \<open>Two checks made while an entry for the potion is held, one of them for another key.\<close>

definition meanwhile :: "(nat \<times> string \<times> string) list" where
  "meanwhile = [(100, ''Bomb'', ''Macro.broken''), (300, ''Healing Potion'', ''Macro.heal'')]"


text \<open>An entry for \<open>key\<close> is live at time \<open>now\<close>: it is in the set once the due timers have run.\<close>

definition live :: "nat \<Rightarrow> string \<Rightarrow> state \<Rightarrow> bool" where
  "live now key s = (key \<in> recentlyExecuted (run_timers now s))"

section \<open>The duplicate suppressor\<close>

lemma run_timers_fields [simp]:
  "consumedItems (run_timers t s) = consumedItems s"
  "suspended (run_timers t s) = suspended s"
  "effects (run_timers t s) = effects s"
  by (simp_all add: run_timers_def)

lemma run_timers_recent:
  "recentlyExecuted (run_timers t s) =
     recentlyExecuted s - snd ` set (filter (\<lambda>d. fst d \<le> t) (timers s))"
  by (simp add: run_timers_def)

lemma run_timers_timers:
  "timers (run_timers t s) = filter (\<lambda>d. \<not> fst d \<le> t) (timers s)"
  by (simp add: run_timers_def)

lemma shouldExecuteMacro_live:
  "key_of nm u \<in> recentlyExecuted s \<Longrightarrow> shouldExecuteMacro t nm u s = (False, s)"
  by (simp add: shouldExecuteMacro_def)

lemma shouldExecuteMacro_fresh:
  "key_of nm u \<notin> recentlyExecuted s \<Longrightarrow>
   shouldExecuteMacro t nm u s =
     (True, s\<lparr>recentlyExecuted := insert (key_of nm u) (recentlyExecuted s),
               timers := timers s @ [(t + 500, key_of nm u)]\<rparr>)"
  by (simp add: shouldExecuteMacro_def Let_def)

lemma fst_shouldExecuteMacro:
  "fst (shouldExecuteMacro t nm u s) = (key_of nm u \<notin> recentlyExecuted s)"
  by (simp add: shouldExecuteMacro_def Let_def)

subsection \<open>One timer per registered key\<close>

lemma wf_dedup_init: "wf_dedup init_state"
  by (simp add: wf_dedup_def init_state_def)

lemma wf_dedup_run_timers:
  assumes "wf_dedup s"
  shows "wf_dedup (run_timers t s)"
proof -
  let ?ts = "timers s"
  let ?due = "\<lambda>d::nat \<times> string. fst d \<le> t"
  from assms have d: "distinct (map snd ?ts)" and r: "snd ` set ?ts = recentlyExecuted s"
    by (simp_all add: wf_dedup_def)
  from d have inj: "inj_on snd (set ?ts)"
    by (simp add: distinct_map)
  have "snd ` set (filter (\<lambda>d. \<not> ?due d) ?ts) = snd ` (set ?ts - set (filter ?due ?ts))"
    by (rule arg_cong [where f = "\<lambda>A. snd ` A"]) auto
  also have "\<dots> = snd ` set ?ts - snd ` set (filter ?due ?ts)"
    by (rule inj_on_image_set_diff [OF inj]) auto
  finally have "snd ` set (timers (run_timers t s)) = recentlyExecuted (run_timers t s)"
    by (simp add: run_timers_recent run_timers_timers r)
  moreover have "distinct (map snd (timers (run_timers t s)))"
    using d by (simp add: run_timers_timers distinct_map_filter)
  ultimately show ?thesis by (simp add: wf_dedup_def)
qed

lemma wf_dedup_shouldExecuteMacro:
  assumes "wf_dedup s"
  shows "wf_dedup (snd (shouldExecuteMacro t nm u s))"
  using assms by (auto simp: wf_dedup_def shouldExecuteMacro_def Let_def)

lemma live_after_admit:
  assumes "wf_dedup s" and "\<not> live t (key_of nm u) s" and "t \<le> t'"
  shows "live t' (key_of nm u) (snd (admit t nm u s)) = (t' < t + 500)"
proof -
  let ?k = "key_of nm u"
  let ?s0 = "run_timers t s"
  from assms(1) have "wf_dedup ?s0" by (rule wf_dedup_run_timers)
  with assms(2) have nok: "?k \<notin> snd ` set (timers ?s0)"
    by (simp add: wf_dedup_def live_def)
  have adm: "snd (admit t nm u s) =
      ?s0\<lparr>recentlyExecuted := insert ?k (recentlyExecuted ?s0), timers := timers ?s0 @ [(t + 500, ?k)]\<rparr>"
    using assms(2) by (simp add: admit_def shouldExecuteMacro_fresh live_def)
  show ?thesis
    using nok by (auto simp add: adm live_def run_timers_recent image_iff)
qed

subsection \<open>The key\<close>

lemma first_separator:
  "c \<notin> set a \<Longrightarrow> c \<notin> set b \<Longrightarrow> a @ c # x = b @ c # y \<Longrightarrow> a = b \<and> x = y"
proof (induction a arbitrary: b)
  case Nil
  then show ?case by (cases b) auto
next
  case (Cons p a)
  then show ?case by (cases b) auto
qed

lemma key_of_inject:
  assumes "CHR '':'' \<notin> set u" and "CHR '':'' \<notin> set u'" and "key_of nm u = key_of nm' u'"
  shows "nm = nm' \<and> u = u'"
proof -
  from assms(3) have "rev (nm @ CHR '':'' # u) = rev (nm' @ CHR '':'' # u')"
    by (simp add: key_of_def)
  then have "rev u @ CHR '':'' # rev nm = rev u' @ CHR '':'' # rev nm'"
    by simp
  with assms(1,2) have "rev u = rev u' \<and> rev nm = rev nm'"
    by (intro first_separator) simp_all
  then show ?thesis by simp
qed

text \<open>
  C10 as stated fails: the pairs \<open>(''A:B'', ''C'')\<close> and \<open>(''A'', ''B:C'')\<close> differ, yet after the
  first is admitted the second is refused inside the window.
\<close>

theorem key_collision_counterexample:
  "(''A:B'', ''C'') \<noteq> (''A'', ''B:C'')
   \<and> fst (admit 0 ''A:B'' ''C'' init_state)
   \<and> \<not> fst (admit 100 ''A'' ''B:C'' (snd (admit 0 ''A:B'' ''C'' init_state)))"
  by (simp add: admit_def shouldExecuteMacro_def Let_def run_timers_def init_state_def key_of_def)

text \<open>
  C10, amended.  On pairs whose macro locator contains no colon (host locators are
  dot-separated paths) the key is injective: two different such pairs have different keys,
  and admitting one leaves the other, if it had no live entry, without one and admitted.
  Item names may contain colons.
\<close>

theorem key_injective_on_locators:
  assumes "CHR '':'' \<notin> set u" and "CHR '':'' \<notin> set u'" and "(nm, u) \<noteq> (nm', u')"
    and "\<not> live t (key_of nm' u') s" and "t \<le> t'"
  shows "key_of nm u \<noteq> key_of nm' u'
       \<and> \<not> live t' (key_of nm' u') (snd (admit t nm u s))
       \<and> fst (admit t' nm' u' (snd (admit t nm u s)))"
proof -
  from assms(1-3) have ne: "key_of nm u \<noteq> key_of nm' u'"
    using key_of_inject by blast
  have "recentlyExecuted (run_timers t' (snd (admit t nm u s))) \<subseteq>
        insert (key_of nm u) (recentlyExecuted (run_timers t s))"
    by (auto simp add: admit_def shouldExecuteMacro_def Let_def run_timers_recent)
  with ne assms(4) have nl: "\<not> live t' (key_of nm' u') (snd (admit t nm u s))"
    by (auto simp add: live_def)
  then have "fst (admit t' nm' u' (snd (admit t nm u s)))"
    by (simp add: admit_def fst_shouldExecuteMacro live_def)
  with ne nl show ?thesis by blast
qed

theorem key_injective_on_locators_witness:
  "key_of ''Elixir: Minor'' ''Macro.a1'' \<noteq> key_of ''Elixir'' ''Macro.a1''
   \<and> fst (admit 10 ''Elixir'' ''Macro.a1'' (snd (admit 0 ''Elixir: Minor'' ''Macro.a1'' init_state)))"
proof -
  have "\<not> live 0 (key_of ''Elixir'' ''Macro.a1'') init_state"
    by (simp add: live_def run_timers_def init_state_def)
  then show ?thesis
    using key_injective_on_locators [of "''Macro.a1''" "''Macro.a1''" "''Elixir: Minor''" "''Elixir''"
        0 init_state 10]
    by simp
qed

section \<open>The callbacks and the suppressor\<close>

lemma handle_dedup [simp]:
  "recentlyExecuted (handle h n s) = recentlyExecuted s"
  "timers (handle h n s) = timers s"
  "effects (handle h n s) = effects s"
  by (cases n; simp add: suspend_def Let_def split: option.split)+

lemma handle_wf_dedup: "wf_dedup (handle h n s) = wf_dedup s"
  by (simp add: wf_dedup_def)

lemma ran_upd_subset: "sd \<in> ran (m(k \<mapsto> v)) \<Longrightarrow> sd = v \<or> sd \<in> ran m"
  by (auto simp: ran_def split: if_splits)

lemma ran_del_subset: "sd \<in> ran (m(k := None)) \<Longrightarrow> sd \<in> ran m"
  by (auto simp: ran_def split: if_splits)

lemma handle_tasks_about:
  assumes "tasks_about nm u s"
    and "case subject h n of None \<Rightarrow> True
         | Some i \<Rightarrow> item_name i = nm \<and> item_macroUuid i = Some u"
  shows "tasks_about nm u (handle h n s)"
proof (cases n)
  case (PreUpdateItem item q userId)
  with assms show ?thesis by (simp add: tasks_about_def suspend_def Let_def)
next
  case (PreDeleteItem item userId)
  with assms show ?thesis
    by (auto simp add: tasks_about_def dest!: ran_upd_subset)
next
  case (DeleteItem item userId)
  with assms show ?thesis
    by (auto simp add: tasks_about_def suspend_def ran_def split: option.split if_splits)
next
  case (Pf2eUseItem item event target)
  with assms show ?thesis by (simp add: tasks_about_def suspend_def)
next
  case (Pf2eConsumeItem item actor)
  with assms show ?thesis by (simp add: tasks_about_def suspend_def)
next
  case (CreateChatMessage message userId)
  with assms show ?thesis
    by (auto simp add: tasks_about_def suspend_def split: option.split)
qed

lemma resume_dispatch:
  "\<exists>warns. \<forall>s. resume h now k s =
     dispatch h now warns (task_name k) (task_macroUuid k) (build_context h k) s"
  by (cases k) auto

lemma dispatch_gone:
  "macro_of_uuid h u = None \<Longrightarrow>
   dispatch h now warns nm u ctx s = (if warns then emit [ConsoleWarn] s else s)"
  by (simp add: dispatch_def)

lemma dispatch_refused:
  "macro_of_uuid h u = Some m \<Longrightarrow> key_of nm u \<in> recentlyExecuted s \<Longrightarrow>
   dispatch h now warns nm u ctx s = s"
  by (simp add: dispatch_def shouldExecuteMacro_live)

lemma dispatch_admitted:
  "macro_of_uuid h u = Some m \<Longrightarrow> key_of nm u \<notin> recentlyExecuted s \<Longrightarrow>
   dispatch h now warns nm u ctx s =
     try_execute u m ctx
       (s\<lparr>recentlyExecuted := insert (key_of nm u) (recentlyExecuted s),
          timers := timers s @ [(now + 500, key_of nm u)]\<rparr>)"
  by (simp add: dispatch_def shouldExecuteMacro_fresh)

lemma invoked_append [simp]: "invoked (xs @ ys) = invoked xs @ invoked ys"
  by (induction xs rule: invoked.induct) simp_all

lemma ui_errors_append [simp]: "ui_errors (xs @ ys) = ui_errors xs @ ui_errors ys"
  by (induction xs rule: ui_errors.induct) simp_all

lemma try_execute_fields [simp]:
  "recentlyExecuted (try_execute u m ctx s) = recentlyExecuted s"
  "timers (try_execute u m ctx s) = timers s"
  "consumedItems (try_execute u m ctx s) = consumedItems s"
  "suspended (try_execute u m ctx s) = suspended s"
  "invoked (effects (try_execute u m ctx s)) = invoked (effects s) @ [u]"
  by (simp_all add: try_execute_def emit_def split: option.split thrown.split)

lemma dispatch_fields [simp]:
  "consumedItems (dispatch h now warns nm u ctx s) = consumedItems s"
  "suspended (dispatch h now warns nm u ctx s) = suspended s"
  by (simp_all add: dispatch_def shouldExecuteMacro_def Let_def emit_def split: option.split)

lemma resume_fields [simp]:
  "consumedItems (resume h now k s) = consumedItems s"
  "suspended (resume h now k s) = suspended s"
  by (cases k; simp)+


lemma run_timers_tasks_about [simp]: "tasks_about nm u (run_timers t s) = tasks_about nm u s"
  by (simp add: tasks_about_def)

lemma run_timers_no_entry: "no_entry k s \<Longrightarrow> no_entry k (run_timers now s)"
  by (auto simp add: no_entry_def run_timers_recent run_timers_timers)

lemma run_timers_entry_until:
  "entry_until k T s \<Longrightarrow> now < T \<Longrightarrow> entry_until k T (run_timers now s)"
  by (fastforce simp add: entry_until_def run_timers_recent run_timers_timers)

lemma handle_entry [simp]:
  "no_entry k (handle h n s) = no_entry k s"
  "entry_until k T (handle h n s) = entry_until k T s"
  by (simp_all add: no_entry_def entry_until_def)

lemma tasks_about_remove:
  "tasks_about nm u s \<Longrightarrow>
   tasks_about nm u (s\<lparr>suspended := take i (suspended s) @ drop (Suc i) (suspended s)\<rparr>)"
  by (auto simp add: tasks_about_def list_all_iff dest: in_set_takeD in_set_dropD)

lemma tasks_about_nth:
  "tasks_about nm u s \<Longrightarrow> i < length (suspended s) \<Longrightarrow>
   task_name (suspended s ! i) = nm \<and> task_macroUuid (suspended s ! i) = u"
  by (simp add: tasks_about_def list_all_length)

lemma dispatch_tasks_about [simp]:
  "tasks_about nm u (dispatch h now warns nm' u' ctx s) = tasks_about nm u s"
  by (simp add: tasks_about_def)

lemma resume_tasks_about [simp]:
  "tasks_about nm u (resume h now k s) = tasks_about nm u s"
  by (simp add: tasks_about_def)

lemma emit_fields [simp]:
  "recentlyExecuted (emit es s) = recentlyExecuted s"
  "timers (emit es s) = timers s"
  "consumedItems (emit es s) = consumedItems s"
  "suspended (emit es s) = suspended s"
  "effects (emit es s) = effects s @ es"
  by (simp_all add: emit_def)

text \<open>While an entry is held, a resumed callback for its pair changes nothing but the log.\<close>

lemma resume_held:
  assumes "entry_until (key_of (task_name k) (task_macroUuid k)) T s"
  shows "entry_until (key_of (task_name k) (task_macroUuid k)) T (resume h now k s)
       \<and> invoked (effects (resume h now k s)) = invoked (effects s)
       \<and> ui_errors (effects (resume h now k s)) = ui_errors (effects s)"
proof -
  obtain warns where r: "resume h now k s =
      dispatch h now warns (task_name k) (task_macroUuid k) (build_context h k) s"
    using resume_dispatch by blast
  from assms have inset: "key_of (task_name k) (task_macroUuid k) \<in> recentlyExecuted s"
    by (simp add: entry_until_def)
  show ?thesis
  proof (cases "macro_of_uuid h (task_macroUuid k)")
    case None
    with assms show ?thesis
      by (simp add: r dispatch_gone entry_until_def)
  next
    case (Some m)
    with assms inset show ?thesis
      by (simp add: r dispatch_refused)
  qed
qed

lemma step_held:
  assumes "tasks_about nm u s" and "entry_until (key_of nm u) T s"
    and "fst e < T" and "aims_at h nm u (snd e)"
  shows "tasks_about nm u (step h e s) \<and> entry_until (key_of nm u) T (step h e s)
       \<and> invoked (effects (step h e s)) = invoked (effects s)"
proof (cases e)
  case (Pair now ev)
  with assms(2,3) have held: "entry_until (key_of nm u) T (run_timers now s)"
    by (simp add: run_timers_entry_until)
  show ?thesis
  proof (cases ev)
    case (Fire n)
    with Pair assms(1,4) held show ?thesis
      by (simp add: aims_at_def handle_tasks_about)
  next
    case (Wake i)
    show ?thesis
    proof (cases "i < length (suspended s)")
      case False
      with Pair Wake assms(1) held show ?thesis by simp
    next
      case True
      let ?k = "suspended s ! i"
      let ?s' = "(run_timers now s)\<lparr>suspended := take i (suspended s) @ drop (Suc i) (suspended s)\<rparr>"
      from assms(1) True have key: "task_name ?k = nm \<and> task_macroUuid ?k = u"
        by (rule tasks_about_nth)
      from held have "entry_until (key_of (task_name ?k) (task_macroUuid ?k)) T ?s'"
        by (simp add: key entry_until_def)
      from resume_held [OF this, of h now] have
        "entry_until (key_of nm u) T (resume h now ?k ?s')
         \<and> invoked (effects (resume h now ?k ?s')) = invoked (effects s)"
        by (simp add: key)
      moreover have "tasks_about nm u ?s'"
        using tasks_about_remove [of nm u "run_timers now s" i] assms(1) by simp
      ultimately show ?thesis
        using Pair Wake True by simp
    qed
  qed
qed

lemma run_held:
  assumes "tasks_about nm u s" and "entry_until (key_of nm u) T s"
    and "list_all (\<lambda>e. fst e < T) tr" and "about h nm u tr"
  shows "invoked (effects (run h tr s)) = invoked (effects s)"
  using assms
proof (induction tr arbitrary: s)
  case Nil
  then show ?case by simp
next
  case (Cons e tr)
  from Cons.prems have "tasks_about nm u (step h e s) \<and> entry_until (key_of nm u) T (step h e s)
       \<and> invoked (effects (step h e s)) = invoked (effects s)"
    by (intro step_held) (simp_all add: about_def)
  with Cons.IH [of "step h e s"] Cons.prems show ?case
    by (simp add: about_def)
qed


lemma resume_admitted:
  assumes "no_entry (key_of (task_name k) (task_macroUuid k)) s"
    and "macro_of_uuid h (task_macroUuid k) = Some m"
  shows "entry_until (key_of (task_name k) (task_macroUuid k)) (now + 500) (resume h now k s)
       \<and> invoked (effects (resume h now k s)) = invoked (effects s) @ [task_macroUuid k]"
proof -
  obtain warns where r: "resume h now k s =
      dispatch h now warns (task_name k) (task_macroUuid k) (build_context h k) s"
    using resume_dispatch by blast
  from assms(1) have "key_of (task_name k) (task_macroUuid k) \<notin> recentlyExecuted s"
    by (simp add: no_entry_def)
  with assms(2) have "resume h now k s =
     try_execute (task_macroUuid k) m (build_context h k)
       (s\<lparr>recentlyExecuted := insert (key_of (task_name k) (task_macroUuid k)) (recentlyExecuted s),
          timers := timers s @ [(now + 500, key_of (task_name k) (task_macroUuid k))]\<rparr>)"
    by (simp add: r dispatch_admitted)
  with assms(1) show ?thesis
    by (force simp add: entry_until_def no_entry_def)
qed

lemma step_wake_idle:
  assumes "tasks_about nm u s" and "no_entry (key_of nm u) s"
    and "macro_of_uuid h u = Some m" and "i < length (suspended s)"
  shows "tasks_about nm u (step h (now, Wake i) s)
       \<and> entry_until (key_of nm u) (now + 500) (step h (now, Wake i) s)
       \<and> invoked (effects (step h (now, Wake i) s)) = invoked (effects s) @ [u]"
proof -
  let ?k = "suspended s ! i"
  let ?s' = "(run_timers now s)\<lparr>suspended := take i (suspended s) @ drop (Suc i) (suspended s)\<rparr>"
  from assms(1,4) have key: "task_name ?k = nm \<and> task_macroUuid ?k = u"
    by (rule tasks_about_nth)
  have "no_entry (key_of nm u) (run_timers now s)"
    using assms(2) by (rule run_timers_no_entry)
  then have "no_entry (key_of (task_name ?k) (task_macroUuid ?k)) ?s'"
    by (simp add: key no_entry_def)
  from resume_admitted [OF this, of h m now] assms(3) have
    "entry_until (key_of nm u) (now + 500) (resume h now ?k ?s')
     \<and> invoked (effects (resume h now ?k ?s')) = invoked (effects s) @ [u]"
    by (simp add: key)
  moreover have "tasks_about nm u ?s'"
    using tasks_about_remove [of nm u "run_timers now s" i] assms(1) by simp
  ultimately show ?thesis
    using assms(4) by simp
qed

lemma step_idle:
  assumes "tasks_about nm u s" and "no_entry (key_of nm u) s"
    and "aims_at h nm u (snd e)" and "\<not> resumes_some h [e] s"
  shows "tasks_about nm u (step h e s) \<and> no_entry (key_of nm u) (step h e s)
       \<and> invoked (effects (step h e s)) = invoked (effects s)"
proof (cases e)
  case (Pair now ev)
  have idle: "no_entry (key_of nm u) (run_timers now s)"
    using assms(2) by (rule run_timers_no_entry)
  show ?thesis
  proof (cases ev)
    case (Fire n)
    with Pair assms(1,3) idle show ?thesis
      by (simp add: aims_at_def handle_tasks_about)
  next
    case (Wake i)
    with Pair assms(1,4) idle show ?thesis by simp
  qed
qed

lemma run_idle:
  assumes "tasks_about nm u s" and "no_entry (key_of nm u) s"
    and "macro_of_uuid h u = Some m" and "about h nm u tr" and "within t0 500 tr"
  shows "invoked (effects (run h tr s)) =
         invoked (effects s) @ (if resumes_some h tr s then [u] else [])"
  using assms(1,2,4,5)
proof (induction tr arbitrary: s)
  case Nil
  then show ?case by simp
next
  case (Cons e tr)
  obtain now ev where e: "e = (now, ev)" by (cases e)
  from Cons.prems(3) have aim: "aims_at h nm u (snd e)" and rest: "about h nm u tr"
    by (simp_all add: about_def)
  from Cons.prems(4) have now: "t0 \<le> now" and win: "within t0 500 tr"
    by (simp_all add: within_def e)
  show ?case
  proof (cases "resumes_some h [e] s")
    case False
    with Cons.prems(1,2) aim have "tasks_about nm u (step h e s) \<and> no_entry (key_of nm u) (step h e s)
       \<and> invoked (effects (step h e s)) = invoked (effects s)"
      by (intro step_idle)
    moreover from False have "resumes_some h (e # tr) s = resumes_some h tr (step h e s)"
      by (cases ev) (simp_all add: e)
    ultimately show ?thesis
      using Cons.IH [of "step h e s"] rest win by simp
  next
    case True
    then obtain i where ev: "ev = Wake i" and i: "i < length (suspended s)"
      by (cases ev) (simp_all add: e)
    from Cons.prems(1,2) assms(3) i have
      st: "tasks_about nm u (step h (now, Wake i) s)
       \<and> entry_until (key_of nm u) (now + 500) (step h (now, Wake i) s)
       \<and> invoked (effects (step h (now, Wake i) s)) = invoked (effects s) @ [u]"
      by (rule step_wake_idle)
    from win now have "list_all (\<lambda>e. fst e < now + 500) tr"
      by (auto simp add: within_def list_all_iff)
    with st rest have "invoked (effects (run h tr (step h (now, Wake i) s))) =
        invoked (effects (step h (now, Wake i) s))"
      by (intro run_held [where nm = nm and u = u and T = "now + 500"]) simp_all
    with st i show ?thesis
      by (simp add: e ev)
  qed
qed

lemma not_live_no_entry:
  assumes "wf_dedup s" and "\<not> live t k s"
  shows "no_entry k (run_timers t s)"
proof -
  from assms(1) have "wf_dedup (run_timers t s)" by (rule wf_dedup_run_timers)
  with assms(2) show ?thesis by (simp add: wf_dedup_def no_entry_def live_def)
qed

lemma run_timers_twice:
  assumes "t0 \<le> t"
  shows "run_timers t (run_timers t0 s) = run_timers t s"
proof -
  have "filter (\<lambda>d. \<not> fst d \<le> t) (filter (\<lambda>d. \<not> fst d \<le> t0) (timers s)) =
        filter (\<lambda>d. \<not> fst d \<le> t) (timers s)"
    using assms by (simp add: conj_commute) (rule filter_cong, auto)
  moreover have "recentlyExecuted s - snd ` set (filter (\<lambda>d. fst d \<le> t0) (timers s))
        - snd ` set (filter (\<lambda>d. fst d \<le> t) (filter (\<lambda>d. \<not> fst d \<le> t0) (timers s))) =
      recentlyExecuted s - snd ` set (filter (\<lambda>d. fst d \<le> t) (timers s))"
    using assms by force
  ultimately show ?thesis
    by (simp add: run_timers_def)
qed

lemma step_after_timers: "t0 \<le> fst e \<Longrightarrow> step h e (run_timers t0 s) = step h e s"
proof (cases e)
  case (Pair now ev)
  assume "t0 \<le> fst e"
  with Pair show ?thesis
    by (cases ev) (simp_all add: run_timers_twice)
qed

lemma resumes_some_after_timers:
  assumes "within t0 w tr"
  shows "resumes_some h tr (run_timers t0 s) = resumes_some h tr s"
proof (cases tr)
  case Nil
  then show ?thesis by simp
next
  case (Cons e es)
  obtain now ev where e: "e = (now, ev)" by (cases e)
  from assms Cons e have "t0 \<le> fst (now, ev)" by (simp add: within_def)
  then have "step h (now, ev) (run_timers t0 s) = step h (now, ev) s"
    by (rule step_after_timers)
  then show ?thesis
    by (cases ev) (simp_all add: Cons e del: step.simps)
qed

lemma run_after_timers:
  assumes "within t0 w tr" and "tr \<noteq> []"
  shows "run h tr (run_timers t0 s) = run h tr s"
proof (cases tr)
  case Nil
  with assms(2) show ?thesis by simp
next
  case (Cons e es)
  with assms(1) have "t0 \<le> fst e" by (simp add: within_def)
  then have "step h e (run_timers t0 s) = step h e s" by (rule step_after_timers)
  then show ?thesis by (simp add: Cons)
qed

lemma wf_dedup_emit [simp]: "wf_dedup (emit es s) = wf_dedup s"
  by (simp add: wf_dedup_def)

lemma wf_dedup_resume:
  assumes "wf_dedup s"
  shows "wf_dedup (resume h now k s)"
proof -
  obtain warns where r: "resume h now k s =
      dispatch h now warns (task_name k) (task_macroUuid k) (build_context h k) s"
    using resume_dispatch by blast
  have "wf_dedup (dispatch h now warns nm u ctx s)" for nm u ctx
  proof (cases "macro_of_uuid h u")
    case None
    with assms show ?thesis by (simp add: dispatch_gone)
  next
    case (Some m)
    from assms have "wf_dedup (snd (shouldExecuteMacro now nm u s))"
      by (rule wf_dedup_shouldExecuteMacro)
    with Some assms show ?thesis
      by (cases "key_of nm u \<in> recentlyExecuted s")
        (simp_all add: dispatch_refused dispatch_admitted shouldExecuteMacro_fresh wf_dedup_def)
  qed
  then show ?thesis by (simp add: r)
qed

lemma wf_dedup_step:
  assumes "wf_dedup s"
  shows "wf_dedup (step h e s)"
proof (cases e)
  case (Pair now ev)
  from assms have wf: "wf_dedup (run_timers now s)" by (rule wf_dedup_run_timers)
  show ?thesis
  proof (cases ev)
    case (Fire n)
    with Pair wf show ?thesis by (simp add: handle_wf_dedup)
  next
    case (Wake i)
    from wf have "wf_dedup ((run_timers now s)\<lparr>suspended := xs\<rparr>)" for xs
      by (simp add: wf_dedup_def)
    then have "wf_dedup (resume h now k ((run_timers now s)\<lparr>suspended := xs\<rparr>))" for k xs
      by (rule wf_dedup_resume)
    with Pair Wake wf show ?thesis by (simp add: Let_def)
  qed
qed

lemma wf_dedup_run: "wf_dedup s \<Longrightarrow> wf_dedup (run h tr s)"
  by (induction tr arbitrary: s) (simp_all add: wf_dedup_step)

lemma step_tasks_about:
  assumes "tasks_about nm u s" and "aims_at h nm u (snd e)"
  shows "tasks_about nm u (step h e s)"
proof (cases e)
  case (Pair now ev)
  show ?thesis
  proof (cases ev)
    case (Fire n)
    with Pair assms show ?thesis by (simp add: aims_at_def handle_tasks_about)
  next
    case (Wake i)
    have "tasks_about nm u ((run_timers now s)\<lparr>suspended := take i (suspended s) @ drop (Suc i) (suspended s)\<rparr>)"
      using tasks_about_remove [of nm u "run_timers now s" i] assms(1) by simp
    with Pair Wake assms(1) show ?thesis by (simp add: Let_def)
  qed
qed

lemma run_tasks_about:
  "tasks_about nm u s \<Longrightarrow> about h nm u tr \<Longrightarrow> tasks_about nm u (run h tr s)"
  by (induction tr arbitrary: s) (simp_all add: about_def step_tasks_about)

lemma tasks_about_init: "tasks_about nm u init_state"
  by (simp add: tasks_about_def init_state_def)

subsection \<open>An entry outlasts whatever else happens\<close>

lemma shouldExecuteMacro_keeps_entry:
  assumes "entry_until K T s"
  shows "entry_until K T (snd (shouldExecuteMacro now nm u s))"
proof (cases "key_of nm u \<in> recentlyExecuted s")
  case True
  with assms show ?thesis by (simp add: shouldExecuteMacro_live)
next
  case False
  with assms have "key_of nm u \<noteq> K" by (auto simp add: entry_until_def)
  with assms False show ?thesis
    by (auto simp add: shouldExecuteMacro_fresh entry_until_def)
qed

lemma shouldExecuteMacro_keeps_timer:
  "d \<in> set (timers s) \<Longrightarrow> d \<in> set (timers (snd (shouldExecuteMacro now nm u s)))"
  by (simp add: shouldExecuteMacro_def Let_def)

lemma resume_keeps_entry:
  assumes "entry_until K T s"
  shows "entry_until K T (resume h now k s)"
proof -
  obtain warns where r: "resume h now k s =
      dispatch h now warns (task_name k) (task_macroUuid k) (build_context h k) s"
    using resume_dispatch by blast
  let ?nm = "task_name k" and ?u = "task_macroUuid k"
  show ?thesis
  proof (cases "macro_of_uuid h ?u")
    case None
    with assms show ?thesis by (simp add: r dispatch_gone entry_until_def)
  next
    case (Some m)
    from assms have "entry_until K T (snd (shouldExecuteMacro now ?nm ?u s))"
      by (rule shouldExecuteMacro_keeps_entry)
    with Some assms show ?thesis
      by (cases "key_of ?nm ?u \<in> recentlyExecuted s")
        (simp_all add: r dispatch_refused dispatch_admitted shouldExecuteMacro_fresh entry_until_def)
  qed
qed

lemma step_keeps_entry:
  assumes "entry_until K T s" and "fst e < T"
  shows "entry_until K T (step h e s)"
proof (cases e)
  case (Pair now ev)
  with assms have held: "entry_until K T (run_timers now s)"
    by (simp add: run_timers_entry_until)
  show ?thesis
  proof (cases ev)
    case (Fire n)
    with Pair held show ?thesis by simp
  next
    case (Wake i)
    from held have "entry_until K T ((run_timers now s)\<lparr>suspended := xs\<rparr>)" for xs
      by (simp add: entry_until_def)
    then have "entry_until K T (resume h now k ((run_timers now s)\<lparr>suspended := xs\<rparr>))" for k xs
      by (rule resume_keeps_entry)
    with Pair Wake held show ?thesis by (simp add: Let_def)
  qed
qed

lemma run_keeps_entry:
  "entry_until K T s \<Longrightarrow> list_all (\<lambda>e. fst e < T) tr \<Longrightarrow> entry_until K T (run h tr s)"
  by (induction tr arbitrary: s) (simp_all add: step_keeps_entry)

lemma entry_until_live: "entry_until K T s \<Longrightarrow> t < T \<Longrightarrow> live t K s"
  using run_timers_entry_until [of K T s t] by (simp add: live_def entry_until_def)

lemma resume_held_dedup:
  assumes "entry_until (key_of (task_name k) (task_macroUuid k)) T s"
  shows "recentlyExecuted (resume h now k s) = recentlyExecuted s
       \<and> timers (resume h now k s) = timers s"
proof -
  obtain warns where r: "resume h now k s =
      dispatch h now warns (task_name k) (task_macroUuid k) (build_context h k) s"
    using resume_dispatch by blast
  from assms have inset: "key_of (task_name k) (task_macroUuid k) \<in> recentlyExecuted s"
    by (simp add: entry_until_def)
  show ?thesis
  proof (cases "macro_of_uuid h (task_macroUuid k)")
    case None
    then show ?thesis by (simp add: r dispatch_gone)
  next
    case (Some m)
    with inset show ?thesis by (simp add: r dispatch_refused)
  qed
qed

lemma step_wake:
  "i < length (suspended s) \<Longrightarrow>
   step h (now, Wake i) s =
     resume h now (suspended s ! i)
       ((run_timers now s)\<lparr>suspended := take i (suspended s) @ drop (Suc i) (suspended s)\<rparr>)"
  by (simp add: Let_def)

lemma admit_keeps_entry:
  assumes "entry_until K T s" and "now < T"
  shows "entry_until K T (snd (admit now nm u s))"
  unfolding admit_def using assms
  by (intro shouldExecuteMacro_keeps_entry run_timers_entry_until)

lemma admit_keeps_timer:
  assumes "(T, K) \<in> set (timers s)" and "now < T"
  shows "(T, K) \<in> set (timers (snd (admit now nm u s)))"
  unfolding admit_def using assms
  by (intro shouldExecuteMacro_keeps_timer) (simp add: run_timers_timers)

lemma admits_keep_entry:
  assumes "entry_until K T s" and "(T, K) \<in> set (timers s)"
    and "list_all (\<lambda>c. fst c < T) cs"
  shows "entry_until K T (admits cs s) \<and> (T, K) \<in> set (timers (admits cs s))"
  using assms
proof (induction cs arbitrary: s)
  case Nil
  then show ?case by simp
next
  case (Cons c cs)
  obtain now nm u where c: "c = (now, nm, u)" by (cases c)
  from Cons.prems c have "entry_until K T (snd (admit now nm u s))"
    and "(T, K) \<in> set (timers (snd (admit now nm u s)))"
    by (simp_all add: admit_keeps_entry admit_keeps_timer)
  with Cons.IH [of "snd (admit now nm u s)"] Cons.prems show ?case
    by (simp add: c)
qed

lemma live_iff_window:
  assumes "entry_until K T s" and "(T, K) \<in> set (timers s)"
  shows "live t' K s \<longleftrightarrow> t' < T"
proof (cases "t' < T")
  case True
  with assms(1) show ?thesis by (simp add: entry_until_live)
next
  case False
  then have "(T, K) \<in> set (filter (\<lambda>d. fst d \<le> t') (timers s))"
    using assms(2) by simp
  then have "K \<in> snd ` set (filter (\<lambda>d. fst d \<le> t') (timers s))"
    by force
  with False show ?thesis by (simp add: live_def run_timers_recent)
qed

lemma admitted_entry:
  assumes "wf_dedup s" and "\<not> live t (key_of nm u) s"
  shows "entry_until (key_of nm u) (t + 500) (snd (admit t nm u s))
       \<and> (t + 500, key_of nm u) \<in> set (timers (snd (admit t nm u s)))"
proof -
  from assms have "no_entry (key_of nm u) (run_timers t s)" by (rule not_live_no_entry)
  then show ?thesis
    by (force simp add: admit_def shouldExecuteMacro_fresh no_entry_def entry_until_def)
qed

lemma live_other_key:
  assumes "K' \<noteq> key_of nm u" and "t \<le> t'"
  shows "live t' K' (snd (admit t nm u s)) = live t' K' s"
proof -
  have "live t' K' (snd (admit t nm u s)) = live t' K' (run_timers t s)"
    using assms(1)
    by (auto simp add: admit_def shouldExecuteMacro_def Let_def live_def run_timers_recent)
  also have "\<dots> = live t' K' s"
    using assms(2) by (simp add: live_def run_timers_twice)
  finally show ?thesis .
qed

subsection \<open>The contract of the suppressor\<close>

text \<open>
  C3 as stated fails in its last clause.  The two notifications of \<open>apart\<close> are for the same
  pair and 501 ms apart.  The first callback passes the check at 2 ms, so the entry is held
  until 502 ms; the second callback, resumed at once, is refused: one invocation, not two.
\<close>

theorem checks_not_notifications_counterexample:
  "fired_within 0 502 apart \<and> \<not> fired_within 0 501 apart
   \<and> about table ''Healing Potion'' ''Macro.heal'' apart
   \<and> invoked (effects (run table apart init_state)) = [''Macro.heal'']"
  by code_simp

text \<open>
  C3, amended.  Called at time \<open>t\<close> in a reachable state, \<^verbatim>\<open>shouldExecuteMacro\<close> returns true
  exactly when no live entry exists for the key it builds from \<open>(itemName, macroUuid)\<close>, the
  two joined by a colon.  When it returns false it registers nothing.  When it returns true
  the key is live until \<open>t + 500\<close> and no longer, by the timer alone and whatever calls, for
  this key or for others, are made before \<open>t + 500\<close>; entries for other keys are left as they
  were.  So a second call for the same pair more than 500 ms after an admitted one, with only
  such calls in between, is admitted as well.  The calls are made when the callbacks are
  resumed: it is the checks that must be more than 500 ms apart, not the notifications.
\<close>

theorem admit_contract:
  assumes "wf_dedup s"
  shows "(fst (admit t nm u s) \<longleftrightarrow> \<not> live t (key_of nm u) s)
       \<and> (live t (key_of nm u) s \<longrightarrow> snd (admit t nm u s) = run_timers t s)
       \<and> (\<not> live t (key_of nm u) s \<and> list_all (\<lambda>c. fst c < t + 500) cs \<longrightarrow>
            (\<forall>t'. live t' (key_of nm u) (admits cs (snd (admit t nm u s))) \<longleftrightarrow> t' < t + 500))
       \<and> (\<not> live t (key_of nm u) s \<and> list_all (\<lambda>c. fst c < t + 500) cs \<and> t + 500 < t' \<longrightarrow>
            fst (admit t' nm u (admits cs (snd (admit t nm u s)))))
       \<and> (K' \<noteq> key_of nm u \<and> t \<le> t' \<longrightarrow>
            live t' K' (snd (admit t nm u s)) = live t' K' s)
       \<and> key_of nm u = nm @ '':'' @ u"
proof (intro conjI impI allI)
  show "fst (admit t nm u s) \<longleftrightarrow> \<not> live t (key_of nm u) s"
    by (simp add: admit_def fst_shouldExecuteMacro live_def)
next
  assume "live t (key_of nm u) s"
  then show "snd (admit t nm u s) = run_timers t s"
    by (simp add: admit_def shouldExecuteMacro_live live_def)
next
  fix t'
  assume a: "\<not> live t (key_of nm u) s \<and> list_all (\<lambda>c. fst c < t + 500) cs"
  with assms have "entry_until (key_of nm u) (t + 500) (snd (admit t nm u s))
       \<and> (t + 500, key_of nm u) \<in> set (timers (snd (admit t nm u s)))"
    by (intro admitted_entry) simp_all
  with a have "entry_until (key_of nm u) (t + 500) (admits cs (snd (admit t nm u s)))
       \<and> (t + 500, key_of nm u) \<in> set (timers (admits cs (snd (admit t nm u s))))"
    by (intro admits_keep_entry) simp_all
  then show "live t' (key_of nm u) (admits cs (snd (admit t nm u s))) \<longleftrightarrow> t' < t + 500"
    by (intro live_iff_window) simp_all
next
  assume a: "\<not> live t (key_of nm u) s \<and> list_all (\<lambda>c. fst c < t + 500) cs \<and> t + 500 < t'"
  with assms have "entry_until (key_of nm u) (t + 500) (snd (admit t nm u s))
       \<and> (t + 500, key_of nm u) \<in> set (timers (snd (admit t nm u s)))"
    by (intro admitted_entry) simp_all
  with a have "entry_until (key_of nm u) (t + 500) (admits cs (snd (admit t nm u s)))
       \<and> (t + 500, key_of nm u) \<in> set (timers (admits cs (snd (admit t nm u s))))"
    by (intro admits_keep_entry) simp_all
  then have "live t' (key_of nm u) (admits cs (snd (admit t nm u s))) \<longleftrightarrow> t' < t + 500"
    by (intro live_iff_window) simp_all
  with a have "\<not> live t' (key_of nm u) (admits cs (snd (admit t nm u s)))" by simp
  then show "fst (admit t' nm u (admits cs (snd (admit t nm u s))))"
    by (simp add: admit_def fst_shouldExecuteMacro live_def)
next
  assume "K' \<noteq> key_of nm u \<and> t \<le> t'"
  then show "live t' K' (snd (admit t nm u s)) = live t' K' s"
    by (simp add: live_other_key)
next
  show "key_of nm u = nm @ '':'' @ u" by (simp add: key_of_def)
qed

theorem admit_contract_witness:
  "wf_dedup init_state
   \<and> \<not> live 0 (key_of ''Healing Potion'' ''Macro.heal'') init_state
   \<and> list_all (\<lambda>c. fst c < 0 + 500) meanwhile
   \<and> key_of ''Bomb'' ''Macro.broken'' \<noteq> key_of ''Healing Potion'' ''Macro.heal''
   \<and> fst (admit 0 ''Healing Potion'' ''Macro.heal'' init_state)
   \<and> fst (admit 100 ''Bomb'' ''Macro.broken''
           (snd (admit 0 ''Healing Potion'' ''Macro.heal'' init_state)))
   \<and> live 499 (key_of ''Healing Potion'' ''Macro.heal'')
        (admits meanwhile (snd (admit 0 ''Healing Potion'' ''Macro.heal'' init_state)))
   \<and> \<not> live 500 (key_of ''Healing Potion'' ''Macro.heal'')
        (admits meanwhile (snd (admit 0 ''Healing Potion'' ''Macro.heal'' init_state)))
   \<and> fst (admit 501 ''Healing Potion'' ''Macro.heal''
        (admits meanwhile (snd (admit 0 ''Healing Potion'' ''Macro.heal'' init_state))))"
proof -
  let ?s1 = "snd (admit 0 ''Healing Potion'' ''Macro.heal'' init_state)"
  have wf: "wf_dedup init_state" by (rule wf_dedup_init)
  have idle: "\<not> live 0 (key_of ''Healing Potion'' ''Macro.heal'') init_state" by code_simp
  have cs: "list_all (\<lambda>c. fst c < 0 + 500) meanwhile" by code_simp
  have ne: "key_of ''Bomb'' ''Macro.broken'' \<noteq> key_of ''Healing Potion'' ''Macro.heal''"
    by (simp add: key_of_def)
  note c = admit_contract [OF wf, where t = 0 and nm = "''Healing Potion''"
      and u = "''Macro.heal''" and cs = meanwhile]
  from c idle have first: "fst (admit 0 ''Healing Potion'' ''Macro.heal'' init_state)"
    by blast
  have wf1: "wf_dedup ?s1"
    unfolding admit_def by (intro wf_dedup_shouldExecuteMacro wf_dedup_run_timers wf)
  have "live 100 (key_of ''Bomb'' ''Macro.broken'') ?s1
      = live 100 (key_of ''Bomb'' ''Macro.broken'') init_state"
    using c [where t' = 100 and K' = "key_of ''Bomb'' ''Macro.broken''"] ne by blast
  moreover have "\<not> live 100 (key_of ''Bomb'' ''Macro.broken'') init_state" by code_simp
  ultimately have "\<not> live 100 (key_of ''Bomb'' ''Macro.broken'') ?s1" by simp
  with admit_contract [OF wf1, where t = 100 and nm = "''Bomb''" and u = "''Macro.broken''"]
  have second: "fst (admit 100 ''Bomb'' ''Macro.broken'' ?s1)" by blast
  from c [where t' = 0 and K' = "[]"] idle cs
  have win: "\<forall>t'. live t' (key_of ''Healing Potion'' ''Macro.heal'') (admits meanwhile ?s1)
      \<longleftrightarrow> t' < 0 + 500"
    by blast
  from win have l1: "live 499 (key_of ''Healing Potion'' ''Macro.heal'') (admits meanwhile ?s1)"
    by simp
  from win have l2: "\<not> live 500 (key_of ''Healing Potion'' ''Macro.heal'') (admits meanwhile ?s1)"
    by simp
  have late: "0 + 500 < (501::nat)" by simp
  from c [where t' = 501 and K' = "[]"] idle cs late
  have third: "fst (admit 501 ''Healing Potion'' ''Macro.heal'' (admits meanwhile ?s1))"
    by blast
  from wf idle cs ne first second l1 l2 third show ?thesis by blast
qed

subsection \<open>One consumption, one invocation\<close>

text \<open>
  C1 as stated fails.  The two notifications of \<open>slow_burst\<close> are about the same potion and
  arrive 20 ms apart.  The first callback passes the check at 1 ms; the second gets its macro
  back at 650 ms, when the entry has expired, and passes it too: the macro runs twice.
\<close>

theorem late_resolution_counterexample:
  "about table ''Healing Potion'' ''Macro.heal'' slow_burst
   \<and> fired_within 0 500 slow_burst
   \<and> invoked (effects (run table slow_burst init_state)) = [''Macro.heal'', ''Macro.heal'']"
  by code_simp

text \<open>
  C1, amended.  Take any sequence of hook calls and resumptions, on any paths and in any
  order, that is about one item name and one attached macro that resolves, that starts with
  no live entry for the pair, and in which every hook call and every resumption happens
  within a window of less than 500 ms.  If at least one callback gets past its own checks and
  is resumed, the macro is invoked exactly once.  (Which notifications pass the checks of
  their callbacks is not part of this statement.)
\<close>

theorem one_invocation_per_burst:
  assumes "wf_dedup s" and "tasks_about nm u s" and "\<not> live t0 (key_of nm u) s"
    and "macro_of_uuid h u = Some m"
    and "about h nm u tr" and "within t0 500 tr" and "resumes_some h tr s"
  shows "invoked (effects (run h tr s)) = invoked (effects s) @ [u]"
proof -
  let ?s0 = "run_timers t0 s"
  from assms(7) have ne: "tr \<noteq> []" by auto
  from assms(1,3) have "no_entry (key_of nm u) ?s0" by (rule not_live_no_entry)
  moreover from assms(2) have "tasks_about nm u ?s0" by simp
  ultimately have "invoked (effects (run h tr ?s0)) =
         invoked (effects ?s0) @ (if resumes_some h tr ?s0 then [u] else [])"
    using assms(4,5,6) by (intro run_idle) 
  moreover have "run h tr ?s0 = run h tr s"
    using assms(6) ne by (rule run_after_timers)
  moreover have "resumes_some h tr ?s0 = resumes_some h tr s"
    using assms(6) by (rule resumes_some_after_timers)
  ultimately show ?thesis
    using assms(7) by simp
qed

theorem one_invocation_per_burst_witness:
  "wf_dedup init_state
   \<and> tasks_about ''Healing Potion'' ''Macro.heal'' init_state
   \<and> \<not> live 0 (key_of ''Healing Potion'' ''Macro.heal'') init_state
   \<and> macro_of_uuid table ''Macro.heal'' = Some heal
   \<and> about table ''Healing Potion'' ''Macro.heal'' burst
   \<and> within 0 500 burst
   \<and> resumes_some table burst init_state
   \<and> invoked (effects (run table burst init_state)) = [''Macro.heal'']"
proof -
  have wf: "wf_dedup init_state" by (rule wf_dedup_init)
  have ta: "tasks_about ''Healing Potion'' ''Macro.heal'' init_state" by (rule tasks_about_init)
  have nl: "\<not> live 0 (key_of ''Healing Potion'' ''Macro.heal'') init_state" by code_simp
  have m: "macro_of_uuid table ''Macro.heal'' = Some heal" by (simp add: table_def)
  have ab: "about table ''Healing Potion'' ''Macro.heal'' burst" by code_simp
  have w: "within 0 500 burst" by code_simp
  have r: "resumes_some table burst init_state" by code_simp
  have e: "invoked (effects init_state) = []" by code_simp
  from one_invocation_per_burst [OF wf ta nl m ab w r] e
  have "invoked (effects (run table burst init_state)) = [''Macro.heal'']" by simp
  with wf ta nl m ab w r show ?thesis by blast
qed

subsection \<open>When the check runs\<close>

text \<open>
  C2 as stated fails.  When the \<^verbatim>\<open>preUpdateItem\<close> hook has been handled, its callback is
  suspended at \<^verbatim>\<open>await fromUuid(macroUuid)\<close> and nothing is registered.  In \<open>racing\<close> a second
  notification for the same pair arrives 100 ms later; its callback is resumed 600 ms after
  the first one passed the check, passes it too, and the macro runs twice.
\<close>

theorem check_after_await_counterexample:
  "suspended (step table (0, Fire (PreUpdateItem potion (Some 2) ''u1'')) init_state)
     = [AwaitPreUpdate potion ''Macro.heal'']
   \<and> \<not> live 0 (key_of ''Healing Potion'' ''Macro.heal'')
         (step table (0, Fire (PreUpdateItem potion (Some 2) ''u1'')) init_state)
   \<and> invoked (effects (run table racing init_state)) = [''Macro.heal'', ''Macro.heal'']"
  by code_simp

text \<open>
  C2, amended.  In every callback the check runs when the callback is resumed, after the
  macro has been resolved: handling a hook call registers nothing.  The test and the
  registration are one synchronous step.  So once a resumed callback has passed the check at
  time \<open>t1\<close>, the entry stays live through whatever happens before \<open>t1 + 500\<close>, hook calls
  and resumptions for this key or any other, in any order; and a callback for the same key
  that is resumed in that time is refused: it invokes nothing and registers nothing.
\<close>

theorem check_runs_on_resume:
  fixes h :: host and s :: state and tr :: "(nat \<times> event) list"
  assumes "wf_dedup s" and "i < length (suspended s)"
    and "macro_of_uuid h (task_macroUuid (suspended s ! i)) = Some m"
    and "\<not> live t1 (key_of (task_name (suspended s ! i)) (task_macroUuid (suspended s ! i))) s"
    and "within t1 500 (tr @ [(t2, Wake j)])"
    and "j < length (suspended (run h tr (step h (t1, Wake i) s)))"
    and "key_of (task_name (suspended (run h tr (step h (t1, Wake i) s)) ! j))
                (task_macroUuid (suspended (run h tr (step h (t1, Wake i) s)) ! j))
         = key_of (task_name (suspended s ! i)) (task_macroUuid (suspended s ! i))"
  shows "recentlyExecuted (step h (t, Fire n) s) = recentlyExecuted (run_timers t s)
       \<and> timers (step h (t, Fire n) s) = timers (run_timers t s)
       \<and> invoked (effects (step h (t1, Wake i) s)) =
           invoked (effects s) @ [task_macroUuid (suspended s ! i)]
       \<and> live t2 (key_of (task_name (suspended s ! i)) (task_macroUuid (suspended s ! i)))
           (run h tr (step h (t1, Wake i) s))
       \<and> invoked (effects (step h (t2, Wake j) (run h tr (step h (t1, Wake i) s)))) =
           invoked (effects (run h tr (step h (t1, Wake i) s)))
       \<and> recentlyExecuted (step h (t2, Wake j) (run h tr (step h (t1, Wake i) s))) =
           recentlyExecuted (run_timers t2 (run h tr (step h (t1, Wake i) s)))"
proof -
  let ?k = "suspended s ! i"
  let ?K = "key_of (task_name ?k) (task_macroUuid ?k)"
  let ?s0 = "run_timers t1 s"
  let ?r = "?s0\<lparr>suspended := take i (suspended s) @ drop (Suc i) (suspended s)\<rparr>"
  let ?s1 = "step h (t1, Wake i) s"
  let ?s2 = "run h tr ?s1"
  let ?k2 = "suspended ?s2 ! j"
  let ?q = "(run_timers t2 ?s2)\<lparr>suspended := take j (suspended ?s2) @ drop (Suc j) (suspended ?s2)\<rparr>"
  from assms(1,4) have "no_entry ?K ?s0" by (rule not_live_no_entry)
  then have "no_entry ?K ?r" by (simp add: no_entry_def)
  from resume_admitted [OF this assms(3), of t1] assms(2)
  have first: "entry_until ?K (t1 + 500) ?s1"
    and inv1: "invoked (effects ?s1) = invoked (effects s) @ [task_macroUuid ?k]"
    by (simp_all add: Let_def)
  from assms(5) have win: "list_all (\<lambda>e. fst e < t1 + 500) tr" and t2: "t2 < t1 + 500"
    by (auto simp add: within_def list_all_iff)
  from first win have held: "entry_until ?K (t1 + 500) ?s2" by (rule run_keeps_entry)
  from held t2 have lv: "live t2 ?K ?s2" by (rule entry_until_live)
  from held t2 have "entry_until ?K (t1 + 500) (run_timers t2 ?s2)"
    by (rule run_timers_entry_until)
  then have "entry_until ?K (t1 + 500) ?q"
    by (simp add: entry_until_def del: step.simps)
  then have q: "entry_until (key_of (task_name ?k2) (task_macroUuid ?k2)) (t1 + 500) ?q"
    by (simp only: assms(7))
  have a: "invoked (effects (resume h t2 ?k2 ?q)) = invoked (effects ?s2)"
    using resume_held [OF q, of h t2] by (simp del: step.simps)
  have b: "recentlyExecuted (resume h t2 ?k2 ?q) = recentlyExecuted (run_timers t2 ?s2)"
    using resume_held_dedup [OF q, of h t2] by (simp del: step.simps)
  have c: "step h (t2, Wake j) ?s2 = resume h t2 ?k2 ?q"
    using assms(6) by (rule step_wake)
  have d: "recentlyExecuted (step h (t, Fire n) s) = recentlyExecuted (run_timers t s)
       \<and> timers (step h (t, Fire n) s) = timers (run_timers t s)"
    by simp
  from a b c d inv1 lv show ?thesis
    by (simp only: simp_thms)
qed

theorem check_runs_on_resume_witness:
  "wf_dedup (run table three_waiting init_state)
   \<and> 0 < length (suspended (run table three_waiting init_state))
   \<and> macro_of_uuid table
        (task_macroUuid (suspended (run table three_waiting init_state) ! 0)) = Some heal
   \<and> \<not> live 100 (key_of ''Healing Potion'' ''Macro.heal'') (run table three_waiting init_state)
   \<and> within 100 500 ([(200, Wake 0)] @ [(599, Wake 0)])
   \<and> suspended (run table [(200, Wake 0)]
        (step table (100, Wake 0) (run table three_waiting init_state)))
       = [AwaitUse potion None None ''Macro.heal'']
   \<and> invoked (effects (run table [(200, Wake 0)]
        (step table (100, Wake 0) (run table three_waiting init_state))))
       = [''Macro.heal'', ''Macro.broken'']
   \<and> invoked (effects (step table (599, Wake 0) (run table [(200, Wake 0)]
        (step table (100, Wake 0) (run table three_waiting init_state)))))
       = [''Macro.heal'', ''Macro.broken'']"
proof -
  let ?s = "run table three_waiting init_state"
  let ?s2 = "run table [(200, Wake 0)] (step table (100, Wake 0) ?s)"
  have wf: "wf_dedup ?s" by (rule wf_dedup_run [OF wf_dedup_init])
  have i: "0 < length (suspended ?s)" by code_simp
  have k: "suspended ?s ! 0 = AwaitPreUpdate potion ''Macro.heal''" by code_simp
  have "macro_of_uuid table ''Macro.heal'' = Some heal" by (simp add: table_def)
  then have m: "macro_of_uuid table (task_macroUuid (suspended ?s ! 0)) = Some heal"
    by (simp only: k task_macroUuid.simps)
  have nl: "\<not> live 100 (key_of ''Healing Potion'' ''Macro.heal'') ?s" by code_simp
  have nl': "\<not> live 100 (key_of (task_name (suspended ?s ! 0)) (task_macroUuid (suspended ?s ! 0))) ?s"
    using nl by (simp only: k task_name.simps task_macroUuid.simps) (simp add: potion_def)
  have w: "within 100 500 ([(200, Wake 0)] @ [(599, Wake 0)])" by code_simp
  have su: "suspended ?s2 = [AwaitUse potion None None ''Macro.heal'']" by code_simp
  have j: "0 < length (suspended ?s2)" by (simp only: su) simp
  have same: "key_of (task_name (suspended ?s2 ! 0)) (task_macroUuid (suspended ?s2 ! 0))
      = key_of (task_name (suspended ?s ! 0)) (task_macroUuid (suspended ?s ! 0))"
    by (simp only: su k nth_Cons_0 task_name.simps task_macroUuid.simps)
  have e: "invoked (effects ?s2) = [''Macro.heal'', ''Macro.broken'']" by code_simp
  from check_runs_on_resume [OF wf i m nl' w j same]
  have "invoked (effects (step table (599, Wake 0) ?s2)) = invoked (effects ?s2)"
    by blast
  with e have "invoked (effects (step table (599, Wake 0) ?s2)) = [''Macro.heal'', ''Macro.broken'']"
    by simp
  with wf i m nl w su e show ?thesis by blast
qed

section \<open>The paths one by one\<close>

lemma run_timers_cong:
  assumes "recentlyExecuted a = recentlyExecuted b" and "timers a = timers b"
  shows "recentlyExecuted (run_timers t a) = recentlyExecuted (run_timers t b)"
    and "timers (run_timers t a) = timers (run_timers t b)"
  by (simp_all add: run_timers_recent run_timers_timers assms)

lemma step_fire_dedup:
  "recentlyExecuted (step h (t, Fire n) s) = recentlyExecuted (run_timers t s)"
  "timers (step h (t, Fire n) s) = timers (run_timers t s)"
  by simp_all

lemma try_execute_effects:
  "take (Suc (length (effects s))) (effects (try_execute u m ctx s)) = effects s @ [Executed u ctx]"
  by (simp add: try_execute_def emit_def split: option.split thrown.split)

subsection \<open>The pre-update path\<close>

text \<open>
  The \<^verbatim>\<open>preUpdateItem\<close> callback goes on to resolve the macro exactly when the user is the
  session's, the item is a consumable with a macro attached, and the new quantity is present,
  \<^emph>\<open>not zero\<close>, and less than the current one: \<^verbatim>\<open>!change.system?.quantity\<close> is true of a
  missing quantity and of the quantity 0 alike.
\<close>

lemma pre_update_suspends_iff:
  "suspended (handle h (PreUpdateItem item q userId) s) \<noteq> suspended s \<longleftrightarrow>
     userId = game_user_id h \<and> item_type item = ''consumable'' \<and> truthy_str (item_macroUuid item)
     \<and> (\<exists>n. q = Some n \<and> n \<noteq> 0 \<and> n < item_quantity item)"
  by (cases q) (auto simp add: truthy_num_def suspend_def Let_def)

text \<open>
  C4 at the failing input.  The source says ``Check if quantity is being reduced (item being
  consumed)'' and ``Only trigger if quantity is decreasing'', and going from 1 to 0 is a
  decrease; but the update of the last potion to quantity 0 is dropped before the comparison
  (with the log line ``No quantity change detected''), so nothing is suspended and nothing
  invoked.  The same update from 3 to 2 invokes the macro.
\<close>

theorem pre_update_to_zero_ignored:
  "item_quantity last_potion = 1
   \<and> run table [(0, Fire (PreUpdateItem last_potion (Some 0) ''u1'')), (1, Wake 0)] init_state
       = init_state
   \<and> invoked (effects (run table
        [(0, Fire (PreUpdateItem potion (Some 2) ''u1'')), (1, Wake 0)] init_state))
       = [''Macro.heal'']"
  by (simp add: last_potion_def potion_def table_def init_state_def run_timers_def truthy_num_def
      truthy_str_def suspend_def dispatch_def shouldExecuteMacro_def try_execute_def heal_def
      emit_def Let_def narrator_def)

subsection \<open>The delete path\<close>




subsection \<open>Other users' notifications\<close>




subsection \<open>The chat-message path\<close>

lemma find_single:
  "filter P xs = [x] \<Longrightarrow> find P xs = Some x"
  by (induction xs) (auto split: if_splits)

lemma find_none: "\<forall>x \<in> set xs. \<not> P x \<Longrightarrow> find P xs = None"
  by (induction xs) auto

lemma search_by_name_order:
  "(find (is_named_consumable nm) (actor_items a) = Some i \<longrightarrow>
      search_by_name h a msg nm = Some i)
   \<and> (find (is_named_consumable nm) (actor_items a) = None
        \<and> find (is_named_consumable nm) (game_items h) = Some i \<longrightarrow>
      search_by_name h a msg nm = Some i)
   \<and> (find (is_named_consumable nm) (actor_items a) = None
        \<and> find (is_named_consumable nm) (game_items h) = None
        \<and> flags_origin_sourceId msg = Some sid \<and> sid \<noteq> [] \<and> item_of_uuid h sid = Some src \<longrightarrow>
      search_by_name h a msg nm = (if item_name src = nm then Some src else None))"
  by (simp add: search_by_name_def truthy_str_def)

lemma uses_healing_potion:
  "uses_pattern (trim (strip_tags ''Uses Healing Potion'')) = Some ''Healing Potion''"
  "trim ''Healing Potion'' = ''Healing Potion''"
  by code_simp+

lemma extract_uses_healing_potion:
  assumes "\<forall>f. message_flavor message = Some f \<longrightarrow> first_match item_id_pattern_at f = None"
    and "message_content message = Some ''Uses Healing Potion''"
  shows "extract_item_name message = Some ''Healing Potion''"
proof -
  have "(if truthy_str (message_flavor message)
             then first_match item_id_pattern_at (the (message_flavor message)) else None) = None"
    using assms(1) by (cases "message_flavor message") (simp_all add: truthy_str_def)
  then show ?thesis
    using assms(2)
    by (simp add: extract_item_name_def Let_def uses_healing_potion truthy_str_def
        del: strip_tags_def)
qed

text \<open>
  C7 as stated fails: the search by name is nested inside the branch that parses the origin
  locator.  A message that says ``Uses Healing Potion'', spoken by the actor who owns the
  only such potion, but with no origin locator resolves to no item.
\<close>

theorem chat_without_origin_counterexample:
  "message_item bare_message = None
   \<and> flags_context_item bare_message = None \<and> flags_origin_uuid bare_message = None
   \<and> message_content bare_message = Some ''Uses Healing Potion''
   \<and> speaker_actor (message_speaker bare_message) = Some ''a1''
   \<and> filter (is_named_consumable ''Healing Potion'') (actor_items hero) = [potion]
   \<and> item_macroUuid potion = Some ''Macro.heal''
   \<and> resolve_item table bare_message = None
   \<and> suspended (run table [(0, Fire (CreateChatMessage bare_message ''u1'')), (1, Wake 0)]
        init_state) = []
   \<and> effects (run table [(0, Fire (CreateChatMessage bare_message ''u1'')), (1, Wake 0)]
        init_state) = []"
  by code_simp

text \<open>
  C7, amended.  Let a chat message of the session user carry no item, no context locator
  that resolves, and an origin locator that does not resolve but reads
  \<^verbatim>\<open>Actor.<actorId>.Item.<itemId>\<close>, where the actor exists and has no item of that id.  Let
  its flavor hold no item name, and its content read ``Uses Healing Potion''.  If that actor
  has exactly one consumable of that name, the resolver finds it; if that item has a macro
  attached that resolves, and no entry for the pair is live when the callback is resumed, the
  macro is invoked with that item and the message in the context.  The search by name takes
  the first match in the actor's inventory, else the first in the world items, else the
  source item if its name is the one looked for.
\<close>

theorem chat_name_fallback:
  fixes h :: host and s :: state and message :: message and it :: item and t t' :: nat
  assumes "userId = game_user_id h"
    and "message_item message = None"
    and "\<forall>c. flags_context_item message = Some c \<longrightarrow> item_of_uuid h c = None"
    and "flags_origin_uuid message = Some originUuid" and "item_of_uuid h originUuid = None"
    and "split_on (CHR ''.'') originUuid = [''Actor'', actorId, ''Item'', itemId]"
    and "game_actors h actorId = Some actor"
    and "\<forall>i \<in> set (actor_items actor). item_id i \<noteq> itemId"
    and "\<forall>f. message_flavor message = Some f \<longrightarrow> first_match item_id_pattern_at f = None"
    and "message_content message = Some ''Uses Healing Potion''"
    and "filter (is_named_consumable ''Healing Potion'') (actor_items actor) = [it]"
    and "item_macroUuid it = Some u" and "u \<noteq> []" and "macro_of_uuid h u = Some m"
    and "t \<le> t'" and "\<not> live t' (key_of ''Healing Potion'' u) s"
  defines "s1 \<equiv> step h (t, Fire (CreateChatMessage message userId)) s"
  defines "s2 \<equiv> step h (t', Wake (length (suspended s))) s1"
  shows "resolve_item h message = Some it
       \<and> suspended s1 = suspended s @ [AwaitChat message it u]
       \<and> take (Suc (length (effects s))) (effects s2) =
           effects s @ [Executed u
             \<lparr>ctx_actor = getSpeakerActor h (message_speaker message),
              ctx_token = canvas_tokens_get h (speaker_token (message_speaker message)),
              ctx_character = game_user_character h,
              ctx_item = it, ctx_speaker = message_speaker message,
              ctx_event = None, ctx_target = None, ctx_message = Some message\<rparr>]
       \<and> invoked (effects s2) = invoked (effects s) @ [u]
       \<and> (find (is_named_consumable nm) (actor_items a) = Some i \<longrightarrow>
            search_by_name h a msg nm = Some i)
       \<and> (find (is_named_consumable nm) (actor_items a) = None
            \<and> find (is_named_consumable nm) (game_items h) = Some i \<longrightarrow>
            search_by_name h a msg nm = Some i)
       \<and> (find (is_named_consumable nm) (actor_items a) = None
            \<and> find (is_named_consumable nm) (game_items h) = None
            \<and> flags_origin_sourceId msg = Some sid \<and> sid \<noteq> []
            \<and> item_of_uuid h sid = Some src \<longrightarrow>
            search_by_name h a msg nm = (if item_name src = nm then Some src else None))"
proof -
  from assms(11) have "it \<in> set (filter (is_named_consumable ''Healing Potion'') (actor_items actor))"
    by simp
  then have it: "item_name it = ''Healing Potion''" "item_type it = ''consumable''"
    by (simp_all add: is_named_consumable_def)
  from assms(11) have found: "find (is_named_consumable ''Healing Potion'') (actor_items actor) = Some it"
    by (rule find_single)
  from assms(8) have noid: "find (\<lambda>i. item_id i = itemId) (actor_items actor) = None"
    by (intro find_none) simp
  from assms(9,10) have name: "extract_item_name message = Some ''Healing Potion''"
    by (rule extract_uses_healing_potion)
  from assms(6) have ne: "originUuid \<noteq> []" by auto
  have origin: "item_from_origin h message originUuid = Some it"
    using assms(5,6,7) noid name found
    by (simp add: item_from_origin_def Let_def search_by_name_def truthy_str_def)
  have ctx: "(if message_item message = None \<and> truthy_str (flags_context_item message)
             then item_of_uuid h (the (flags_context_item message)) else message_item message) = None"
    using assms(2,3) by (cases "flags_context_item message") (simp_all add: truthy_str_def)
  have res: "resolve_item h message = Some it"
    using assms(4) ne origin ctx by (simp add: resolve_item_def Let_def truthy_str_def)
  have h1: "s1 = suspend (AwaitChat message it u) (run_timers t s)"
    using assms(1,12,13) res it by (simp add: s1_def truthy_str_def)
  then have u1: "suspended s1 = suspended s @ [AwaitChat message it u]"
    and e1: "effects s1 = effects s"
    by (simp_all add: suspend_def)
  have d1: "recentlyExecuted s1 = recentlyExecuted (run_timers t s)"
    "timers s1 = timers (run_timers t s)"
    unfolding s1_def by (rule step_fire_dedup)+
  have "recentlyExecuted (run_timers t' s1) = recentlyExecuted (run_timers t' s)"
    using run_timers_cong(1) [OF d1, of t'] assms(15) by (simp only: run_timers_twice)
  with assms(16) have fresh: "key_of (item_name it) u \<notin> recentlyExecuted (run_timers t' s1)"
    by (simp add: live_def it)
  let ?r = "(run_timers t' s1)\<lparr>suspended := suspended s\<rparr>"
  let ?q = "?r\<lparr>recentlyExecuted := insert (key_of (item_name it) u) (recentlyExecuted ?r),
           timers := timers ?r @ [(t' + 500, key_of (item_name it) u)]\<rparr>"
  have "s2 = resume h t' (AwaitChat message it u) ?r"
    by (simp add: s2_def u1 Let_def)
  with fresh assms(14) have d: "s2 =
     try_execute u m (build_context h (AwaitChat message it u)) ?q"
    by (simp add: dispatch_admitted)
  have i2: "invoked (effects s2) = invoked (effects s) @ [u]"
    by (simp add: d e1)
  have t2: "take (Suc (length (effects s))) (effects s2) =
           effects s @ [Executed u (build_context h (AwaitChat message it u))]"
    using try_execute_effects [of ?q u m] by (simp add: d e1)
  from res u1 t2 i2 search_by_name_order [of nm a i h msg sid src] show ?thesis
    by (simp add: Let_def)
qed

theorem chat_name_fallback_witness:
  "''u1'' = game_user_id table \<and> message_item origin_message = None
   \<and> flags_origin_uuid origin_message = Some ''Actor.a1.Item.tmp9''
   \<and> split_on (CHR ''.'') ''Actor.a1.Item.tmp9'' = [''Actor'', ''a1'', ''Item'', ''tmp9'']
   \<and> game_actors table ''a1'' = Some hero
   \<and> message_content origin_message = Some ''Uses Healing Potion''
   \<and> filter (is_named_consumable ''Healing Potion'') (actor_items hero) = [potion]
   \<and> item_macroUuid potion = Some ''Macro.heal''
   \<and> macro_of_uuid table ''Macro.heal'' = Some heal
   \<and> \<not> live 4 (key_of ''Healing Potion'' ''Macro.heal'') init_state
   \<and> resolve_item table origin_message = Some potion
   \<and> invoked (effects (run table
        [(2, Fire (CreateChatMessage origin_message ''u1'')), (4, Wake 0)] init_state))
       = [''Macro.heal'']"
proof -
  have a1: "''u1'' = game_user_id table" by (simp add: table_def)
  have a2: "message_item origin_message = None"
    by (simp add: origin_message_def bare_message_def)
  have a3: "\<forall>c. flags_context_item origin_message = Some c \<longrightarrow> item_of_uuid table c = None"
    by (simp add: origin_message_def bare_message_def)
  have a4: "flags_origin_uuid origin_message = Some ''Actor.a1.Item.tmp9''"
    by (simp add: origin_message_def bare_message_def)
  have a5: "item_of_uuid table ''Actor.a1.Item.tmp9'' = None" by (simp add: table_def)
  have a6: "split_on (CHR ''.'') ''Actor.a1.Item.tmp9'' = [''Actor'', ''a1'', ''Item'', ''tmp9'']"
    by code_simp
  have a7: "game_actors table ''a1'' = Some hero" by (simp add: table_def)
  have a8: "\<forall>i \<in> set (actor_items hero). item_id i \<noteq> ''tmp9''"
    by (simp add: hero_def bomb_def potion_def orphan_def)
  have a9: "\<forall>f. message_flavor origin_message = Some f \<longrightarrow> first_match item_id_pattern_at f = None"
    by (simp add: origin_message_def bare_message_def)
  have a10: "message_content origin_message = Some ''Uses Healing Potion''"
    by (simp add: origin_message_def bare_message_def)
  have a11: "filter (is_named_consumable ''Healing Potion'') (actor_items hero) = [potion]"
    by code_simp
  have a12: "item_macroUuid potion = Some ''Macro.heal''" by (simp add: potion_def)
  have a13: "''Macro.heal'' \<noteq> []" by simp
  have a14: "macro_of_uuid table ''Macro.heal'' = Some heal" by (simp add: table_def)
  have a15: "(2::nat) \<le> 4" by simp
  have a16: "\<not> live 4 (key_of ''Healing Potion'' ''Macro.heal'') init_state" by code_simp
  have g: "suspended init_state = []" "effects init_state = []"
    by (simp_all add: init_state_def)
  from chat_name_fallback [OF a1 a2 a3 a4 a5 a6 a7 a8 a9 a10 a11 a12 a13 a14 a15 a16]
  have "resolve_item table origin_message = Some potion
   \<and> invoked (effects (run table
        [(2, Fire (CreateChatMessage origin_message ''u1'')), (4, Wake 0)] init_state))
       = [''Macro.heal'']"
    by (simp add: g del: step.simps)
  with a1 a2 a4 a6 a7 a10 a11 a12 a14 a16 show ?thesis by blast
qed

subsection \<open>A macro that is gone, a macro that fails\<close>

text \<open>
  C8.  On every path, when the macro locator of a resumed callback resolves to nothing, the
  callback invokes nothing, shows no error notification and registers nothing; and handling
  a hook call never has an effect of its own.  (Three callbacks write a console warning.)
\<close>

theorem deleted_macro_is_silent:
  assumes "macro_of_uuid h (task_macroUuid k) = None"
  shows "invoked (effects (resume h now k s)) = invoked (effects s)
       \<and> ui_errors (effects (resume h now k s)) = ui_errors (effects s)
       \<and> recentlyExecuted (resume h now k s) = recentlyExecuted s
       \<and> timers (resume h now k s) = timers s
       \<and> effects (handle h n s) = effects s"
proof -
  obtain warns where r: "resume h now k s =
      dispatch h now warns (task_name k) (task_macroUuid k) (build_context h k) s"
    using resume_dispatch by blast
  from assms show ?thesis
    by (simp add: r dispatch_gone)
qed

theorem deleted_macro_is_silent_witness:
  "suspended (step table (0, Fire (PreUpdateItem orphan (Some 1) ''u1'')) init_state)
     = [AwaitPreUpdate orphan ''Macro.gone'']
   \<and> macro_of_uuid table (task_macroUuid (AwaitPreUpdate orphan ''Macro.gone'')) = None
   \<and> invoked (effects (resume table 1 (AwaitPreUpdate orphan ''Macro.gone'') init_state)) = []
   \<and> ui_errors (effects (resume table 1 (AwaitPreUpdate orphan ''Macro.gone'') init_state)) = []"
proof -
  let ?k = "AwaitPreUpdate orphan ''Macro.gone''"
  have a: "suspended (step table (0, Fire (PreUpdateItem orphan (Some 1) ''u1'')) init_state) = [?k]"
    by code_simp
  have g: "macro_of_uuid table (task_macroUuid ?k) = None" by (simp add: table_def)
  have e: "effects init_state = []" by (simp add: init_state_def)
  note c = deleted_macro_is_silent [OF g, of 1 init_state]
  from c have i: "invoked (effects (resume table 1 ?k init_state)) = []"
    by (simp only: e invoked.simps)
  from c have u: "ui_errors (effects (resume table 1 ?k init_state)) = []"
    by (simp only: e ui_errors.simps)
  from a g i u show ?thesis by blast
qed

lemma build_context_host [simp]:
  "build_context (h\<lparr>macro_of_uuid := f\<rparr>) k = build_context h k"
  by (cases k) (simp_all add: Let_def split: option.split)

lemma escaped_append [simp]: "escaped (xs @ ys) = escaped xs + escaped ys"
  by (induction xs rule: escaped.induct) simp_all

lemma resume_passes:
  assumes "macro_of_uuid h (task_macroUuid k) = Some m"
    and "key_of (task_name k) (task_macroUuid k) \<notin> recentlyExecuted s"
  shows "resume h now k s =
     try_execute (task_macroUuid k) m (build_context h k)
       (s\<lparr>recentlyExecuted := insert (key_of (task_name k) (task_macroUuid k)) (recentlyExecuted s),
          timers := timers s @ [(now + 500, key_of (task_name k) (task_macroUuid k))]\<rparr>)"
proof -
  obtain warns where r: "\<forall>s. resume h now k s =
      dispatch h now warns (task_name k) (task_macroUuid k) (build_context h k) s"
    using resume_dispatch by blast
  from assms show ?thesis by (simp add: r dispatch_admitted)
qed

text \<open>
  A failure that carries a message is contained: exactly one error notification is added,
  reading ``Failed to execute macro: \<open>msg\<close>'', nothing leaves the callback, and the state is
  the one a successful run leaves, with two more entries in the log.
\<close>

lemma message_failure_is_contained:
  assumes "macro_of_uuid h (task_macroUuid k) = Some m"
    and "macro_execute m (build_context h k) = Some (Thrown (Some msg))"
    and "key_of (task_name k) (task_macroUuid k) \<notin> recentlyExecuted s"
  shows "ui_errors (effects (resume h now k s)) =
           ui_errors (effects s) @ [''Failed to execute macro: '' @ msg]
       \<and> escaped (effects (resume h now k s)) = escaped (effects s)
       \<and> invoked (effects (resume h now k s)) = invoked (effects s) @ [task_macroUuid k]
       \<and> resume h now k s =
           emit [ConsoleError, UiError (''Failed to execute macro: '' @ msg)]
             (resume (h\<lparr>macro_of_uuid :=
                        (macro_of_uuid h)(task_macroUuid k \<mapsto> m\<lparr>macro_execute := \<lambda>ctx. None\<rparr>)\<rparr>)
                now k s)"
proof -
  let ?u = "task_macroUuid k"
  let ?ok = "m\<lparr>macro_execute := \<lambda>ctx. None\<rparr>"
  let ?h = "h\<lparr>macro_of_uuid := (macro_of_uuid h)(?u \<mapsto> ?ok)\<rparr>"
  have bad: "resume h now k s = try_execute ?u m (build_context h k)
       (s\<lparr>recentlyExecuted := insert (key_of (task_name k) ?u) (recentlyExecuted s),
          timers := timers s @ [(now + 500, key_of (task_name k) ?u)]\<rparr>)"
    using assms(1,3) by (rule resume_passes)
  have "macro_of_uuid ?h ?u = Some ?ok" by simp
  from resume_passes [OF this assms(3), of now]
  have good: "resume ?h now k s = try_execute ?u ?ok (build_context h k)
       (s\<lparr>recentlyExecuted := insert (key_of (task_name k) ?u) (recentlyExecuted s),
          timers := timers s @ [(now + 500, key_of (task_name k) ?u)]\<rparr>)"
    by simp
  from assms(2) show ?thesis
    by (simp add: bad good try_execute_def emit_def)
qed

text \<open>
  A failure that is \<^verbatim>\<open>null\<close> or \<^verbatim>\<open>undefined\<close> is not: on every path the \<^verbatim>\<open>catch\<close> block
  itself throws on \<^verbatim>\<open>err.message\<close>, no notification is shown and the exception leaves the
  callback.  A failure without a message is shown as ``undefined''.
\<close>

lemma nullish_failure_on_every_path:
  assumes "macro_of_uuid h (task_macroUuid k) = Some m"
    and "macro_execute m (build_context h k) = Some Nullish"
    and "key_of (task_name k) (task_macroUuid k) \<notin> recentlyExecuted s"
  shows "ui_errors (effects (resume h now k s)) = ui_errors (effects s)
       \<and> escaped (effects (resume h now k s)) = Suc (escaped (effects s))
       \<and> invoked (effects (resume h now k s)) = invoked (effects s) @ [task_macroUuid k]"
  using assms(2) by (simp add: resume_passes [OF assms(1,3)] try_execute_def emit_def)

lemma messageless_failure_on_every_path:
  assumes "macro_of_uuid h (task_macroUuid k) = Some m"
    and "macro_execute m (build_context h k) = Some (Thrown None)"
    and "key_of (task_name k) (task_macroUuid k) \<notin> recentlyExecuted s"
  shows "ui_errors (effects (resume h now k s)) =
           ui_errors (effects s) @ [''Failed to execute macro: undefined'']
       \<and> escaped (effects (resume h now k s)) = escaped (effects s)"
  using assms(2) by (simp add: resume_passes [OF assms(1,3)] try_execute_def emit_def)

text \<open>
  C9 at the failing input.  The claim (and the \<^verbatim>\<open>catch (err)\<close> around every
  \<^verbatim>\<open>macro.execute\<close>, with its ``Failed to execute macro'' notification) has every failure of
  a macro caught and shown once.  The macro of the flask throws \<^verbatim>\<open>null\<close>: it is invoked,
  no notification is shown, and one exception leaves the callback.  The macro of the vial
  throws a string: the notification reads ``undefined'' instead of the failure's text.  The
  error thrown by the bomb's macro is shown with its message and contained.
\<close>

theorem nullish_failure_escapes:
  "macro_execute throws_null (build_context table (AwaitUse flask None None ''Macro.null''))
     = Some Nullish
   \<and> invoked (effects (run table flask_used init_state)) = [''Macro.null'']
   \<and> ui_errors (effects (run table flask_used init_state)) = []
   \<and> escaped (effects (run table flask_used init_state)) = 1
   \<and> macro_execute throws_text (build_context table (AwaitUse vial None None ''Macro.text''))
     = Some (Thrown None)
   \<and> ui_errors (effects (run table vial_used init_state)) = [''Failed to execute macro: undefined'']
   \<and> ui_errors (effects (run table bomb_used init_state)) = [''Failed to execute macro: boom'']
   \<and> escaped (effects (run table bomb_used init_state)) = 0"
  by code_simp

end
